theory Spec2Isabelle
  imports Main "HOL-Library.AList"
begin

section \<open>The metadata route of metatag-extractor\<close>

text \<open>
  The development embeds \<^verbatim>\<open>src/app/api/metadata/route.ts\<close>: the validator
  \<^verbatim>\<open>isValidUrl\<close> and the handler \<^verbatim>\<open>POST\<close>. The handler is one
  \<^verbatim>\<open>try\<close> block; every early \<^verbatim>\<open>return\<close> and every exception that
  reaches the \<^verbatim>\<open>catch\<close> is a branch of the model. What the handler calls but
  does not define (the URL constructor, \<^verbatim>\<open>fetch\<close>, the metascraper instance,
  \<^verbatim>\<open>cheerio.load\<close>, the clock) is collected in a record \<open>env\<close> of functions,
  and the general theorems hold for every such record.
\<close>

subsection \<open>JavaScript values, strings and objects\<close>

text \<open>
  The values that reach the result object: \<^verbatim>\<open>undefined\<close>, \<^verbatim>\<open>null\<close>, a
  string, or an array of strings (the feeds).
\<close>

datatype jsval = Undefined | Null | Str string | StrList "string list"

text \<open>
  An object is the list of its own properties with distinct keys. A property that exists
  keeps its place when it is written again and a new one goes to the end, which is what
  \<open>AList.update\<close> does. (The engine lists keys that are array indices first; the
  position of such keys is not modelled, and no statement below depends on positions.)
\<close>

type_synonym obj = "(string \<times> jsval) list"

text \<open>
  \<^verbatim>\<open>additionalMeta[k] = v\<close> on a plain object. The key \<^verbatim>\<open>__proto__\<close> is the
  accessor inherited from \<^verbatim>\<open>Object.prototype\<close>: assigning a string to it changes
  nothing and creates no own property.
\<close>

definition assign :: "obj \<Rightarrow> string \<Rightarrow> jsval \<Rightarrow> obj" where
  "assign ob k v = (if k = ''__proto__'' then ob else AList.update k v ob)"

text \<open>\<^verbatim>\<open>{ ...literal, ...additionalMeta }\<close>: the own properties of the spread object
  are defined on the literal one after the other.\<close>

definition spread :: "obj \<Rightarrow> obj \<Rightarrow> obj" where
  "spread lit ob = foldl (\<lambda>acc kv. AList.update (fst kv) (snd kv) acc) lit ob"

text \<open>\<^verbatim>\<open>NextResponse.json(x)\<close> serialises with \<^verbatim>\<open>JSON.stringify\<close>, which leaves
  out the properties whose value is \<^verbatim>\<open>undefined\<close> and keeps \<^verbatim>\<open>null\<close>.\<close>

definition stringify :: "obj \<Rightarrow> obj" where
  "stringify ob = filter (\<lambda>kv. snd kv \<noteq> Undefined) ob"

text \<open>An attribute read gives a string or \<^verbatim>\<open>undefined\<close>; the empty string and
  \<^verbatim>\<open>undefined\<close> are the falsy ones.\<close>

definition truthy :: "string option \<Rightarrow> bool" where
  "truthy a = (case a of None \<Rightarrow> False | Some s \<Rightarrow> s \<noteq> [])"

definition or_else :: "string option \<Rightarrow> string option \<Rightarrow> string option" where
  "or_else a b = (if truthy a then a else b)"

definition startsWith :: "string \<Rightarrow> string \<Rightarrow> bool" where
  "startsWith s p = (take (length p) s = p)"

definition toLower :: "char \<Rightarrow> char" where
  "toLower c =
     (case map_of (zip ''ABCDEFGHIJKLMNOPQRSTUVWXYZ'' ''abcdefghijklmnopqrstuvwxyz'') c of
        Some l \<Rightarrow> l
      | None \<Rightarrow> c)"

text \<open>The decimal digits a template literal writes for a non-negative integer.\<close>

fun digits :: "nat \<Rightarrow> string" where
  "digits n =
     (if n < 10 then [''0123456789'' ! n]
      else digits (n div 10) @ [''0123456789'' ! (n mod 10)])"

declare digits.simps [simp del]

text \<open>The value of a decimal digit, to state that \<open>digits\<close> writes the number.\<close>

definition digit_value :: "char \<Rightarrow> nat" where
  "digit_value c = (of_char c :: nat) - 48"

subsection \<open>The document tree\<close>

text \<open>
  \<^verbatim>\<open>cheerio.load(html)\<close> gives a tree; the handler only ever selects elements by
  tag name and attribute and reads attributes, so the tree is the list of its elements
  in document order, each with its (lower-case) tag name and its attributes.
\<close>

record element =
  tag :: string
  attribs :: "(string \<times> string) list"

definition attr :: "element \<Rightarrow> string \<Rightarrow> string option" where
  "attr e a = map_of (attribs e) a"

text \<open>\<^verbatim>\<open>$(selector).attr(a)\<close> reads the attribute of the first selected element.\<close>

definition first_attr :: "element list \<Rightarrow> string \<Rightarrow> string option" where
  "first_attr es a = (case es of [] \<Rightarrow> None | e # _ \<Rightarrow> attr e a)"

text \<open>
  The selectors of the handler. \<^verbatim>\<open>[a^="p"]\<close> is a prefix test on the value as
  written. \<^verbatim>\<open>[a="v"]\<close> is used with \<^verbatim>\<open>rel\<close>, \<^verbatim>\<open>type\<close> and
  \<^verbatim>\<open>http-equiv\<close> only, attributes whose values the selector engine compares
  without regard to ASCII letter case in an HTML document.
\<close>

definition attr_prefix :: "string \<Rightarrow> string \<Rightarrow> element \<Rightarrow> bool" where
  "attr_prefix a p e = (case attr e a of None \<Rightarrow> False | Some v \<Rightarrow> startsWith v p)"

definition attr_is :: "string \<Rightarrow> string \<Rightarrow> element \<Rightarrow> bool" where
  "attr_is a v e = (case attr e a of None \<Rightarrow> False | Some w \<Rightarrow> map toLower w = v)"

definition sel_og :: "element \<Rightarrow> bool" where
  "sel_og e = (tag e = ''meta'' \<and> attr_prefix ''property'' ''og:'' e)"

definition sel_twitter :: "element \<Rightarrow> bool" where
  "sel_twitter e = (tag e = ''meta'' \<and> attr_prefix ''name'' ''twitter:'' e)"

definition sel_meta_name :: "element \<Rightarrow> bool" where
  "sel_meta_name e = (tag e = ''meta'' \<and> attr e ''name'' \<noteq> None)"

definition sel_link_rel :: "string \<Rightarrow> element \<Rightarrow> bool" where
  "sel_link_rel v e = (tag e = ''link'' \<and> attr_is ''rel'' v e)"

definition sel_feed :: "element \<Rightarrow> bool" where
  "sel_feed e = (tag e = ''link'' \<and>
     (attr_is ''type'' ''application/rss+xml'' e \<or> attr_is ''type'' ''application/atom+xml'' e))"

definition sel_html :: "element \<Rightarrow> bool" where
  "sel_html e = (tag e = ''html'')"

definition sel_content_language :: "element \<Rightarrow> bool" where
  "sel_content_language e = (tag e = ''meta'' \<and> attr_is ''http-equiv'' ''content-language'' e)"

subsection \<open>The environment\<close>

text \<open>A parsed URL, with the fields of the URL standard. \<open>host = None\<close> is the null
  host (the getter \<^verbatim>\<open>host\<close> then returns the empty string).\<close>

record URL =
  scheme :: string
  host :: "string option"
  path :: string
  opaque :: bool
  query :: "string option"
  fragment :: "string option"

definition href :: "URL \<Rightarrow> string" where
  "href u = scheme u @ '':'' @
     (case host u of Some h \<Rightarrow> ''//'' @ h
      | None \<Rightarrow> (if \<not> opaque u \<and> startsWith (path u) ''//'' then ''/.'' else [])) @
     path u @
     (case query u of Some q \<Rightarrow> ''?'' @ q | None \<Rightarrow> []) @
     (case fragment u of Some f \<Rightarrow> ''#'' @ f | None \<Rightarrow> [])"

text \<open>What \<^verbatim>\<open>await fetch(url, ...)\<close> gives: the promise rejects, or it resolves to a
  response. \<open>body_text = None\<close> is a body whose \<^verbatim>\<open>text()\<close> rejects.\<close>

record response =
  status :: nat
  statusText :: string
  url :: string
  body_text :: "string option"

datatype fetched = Rejects | Resolves response

text \<open>\<^verbatim>\<open>response.ok\<close> is true exactly for the statuses 200 to 299.\<close>

definition ok :: "response \<Rightarrow> bool" where
  "ok r = (200 \<le> status r \<and> status r \<le> 299)"

text \<open>The fields of the metascraper result that the handler reads.\<close>

record metadata =
  title :: jsval
  description :: jsval
  image :: jsval
  logo :: jsval
  author :: jsval
  date :: jsval
  publisher :: jsval

text \<open>
  \<open>URL_new s None\<close> is \<^verbatim>\<open>new URL(s)\<close> and \<open>URL_new s (Some b)\<close> is
  \<^verbatim>\<open>new URL(s, b)\<close>; \<open>None\<close> as a result is the \<^verbatim>\<open>TypeError\<close>.
  \<open>scraper html u\<close> is \<^verbatim>\<open>await scraper({ html, url: u })\<close>, \<open>None\<close> when it
  rejects. \<open>toISOString\<close> is \<^verbatim>\<open>new Date().toISOString()\<close> at assembly time.
\<close>

record env =
  URL_new :: "string \<Rightarrow> string option \<Rightarrow> URL option"
  fetch :: "string \<Rightarrow> fetched"
  scraper :: "string \<Rightarrow> string \<Rightarrow> metadata option"
  load :: "string \<Rightarrow> element list"
  toISOString :: string

subsection \<open>The validator\<close>

definition isValidUrl :: "env \<Rightarrow> string \<Rightarrow> bool" where
  "isValidUrl E s = (case URL_new E s None of Some _ \<Rightarrow> True | None \<Rightarrow> False)"

subsection \<open>The handler\<close>

text \<open>The body of the three \<^verbatim>\<open>.each\<close> callbacks over meta tags, for the key
  attribute \<open>a\<close> (\<^verbatim>\<open>property\<close> or \<^verbatim>\<open>name\<close>).\<close>

definition collect_meta :: "string \<Rightarrow> obj \<Rightarrow> element \<Rightarrow> obj" where
  "collect_meta a m e =
     (case attr e a of
        None \<Rightarrow> m
      | Some k \<Rightarrow>
          (case attr e ''content'' of
             None \<Rightarrow> m
           | Some c \<Rightarrow> if k \<noteq> [] \<and> c \<noteq> [] then assign m k (Str c) else m))"

text \<open>The three sweeps, in the order of the source: Open Graph, Twitter Card, every
  meta tag with a name.\<close>

definition meta_sweeps :: "element list \<Rightarrow> obj" where
  "meta_sweeps doc =
     (let m1 = foldl (collect_meta ''property'') [] (filter sel_og doc);
          m2 = foldl (collect_meta ''name'') m1 (filter sel_twitter doc)
      in foldl (collect_meta ''name'') m2 (filter sel_meta_name doc))"

text \<open>\<^verbatim>\<open>x.startsWith("http") ? x : new URL(x, targetUrl).href\<close>; \<open>None\<close> when the
  constructor throws.\<close>

definition resolve :: "env \<Rightarrow> string \<Rightarrow> string \<Rightarrow> string option" where
  "resolve E targetUrl x =
     (if startsWith x ''http'' then Some x
      else map_option href (URL_new E x (Some targetUrl)))"

definition favicon_candidate :: "element list \<Rightarrow> string option" where
  "favicon_candidate doc =
     or_else (first_attr (filter (sel_link_rel ''icon'') doc) ''href'')
       (or_else (first_attr (filter (sel_link_rel ''shortcut icon'') doc) ''href'')
          (first_attr (filter (sel_link_rel ''apple-touch-icon'') doc) ''href''))"

definition lang_candidate :: "element list \<Rightarrow> string option" where
  "lang_candidate doc =
     or_else (first_attr (filter sel_html doc) ''lang'')
       (first_attr (filter sel_content_language doc) ''content'')"

text \<open>The loop over the feed links: \<open>acc\<close> is the array \<^verbatim>\<open>feeds\<close>; a throwing
  constructor ends the loop and the handler's \<^verbatim>\<open>try\<close> block.\<close>

fun collect_feeds :: "env \<Rightarrow> string \<Rightarrow> element list \<Rightarrow> string list \<Rightarrow> string list option" where
  "collect_feeds E targetUrl [] acc = Some acc"
| "collect_feeds E targetUrl (e # es) acc =
     (if truthy (attr e ''href'') then
        (case resolve E targetUrl (the (attr e ''href'')) of
           None \<Rightarrow> None
         | Some u \<Rightarrow> collect_feeds E targetUrl es (acc @ [u]))
      else collect_feeds E targetUrl es acc)"

text \<open>Lines 75 to 143: the object \<^verbatim>\<open>additionalMeta\<close>, or \<open>None\<close> when a URL
  constructor threw on the way.\<close>

definition additionalMeta :: "env \<Rightarrow> element list \<Rightarrow> string \<Rightarrow> obj option" where
  "additionalMeta E doc targetUrl =
     (let m3 = meta_sweeps doc;
          canonical = first_attr (filter (sel_link_rel ''canonical'') doc) ''href'';
          m4 = (if truthy canonical then assign m3 ''canonical'' (Str (the canonical)) else m3);
          favicon = favicon_candidate doc;
          m5 = (if truthy favicon
                then map_option (\<lambda>u. assign m4 ''favicon'' (Str u)) (resolve E targetUrl (the favicon))
                else Some m4)
      in case m5 of
           None \<Rightarrow> None
         | Some m5' \<Rightarrow>
             (let lang = lang_candidate doc;
                  m6 = (if truthy lang then assign m5' ''language'' (Str (the lang)) else m5')
              in case collect_feeds E targetUrl (filter sel_feed doc) [] of
                   None \<Rightarrow> None
                 | Some feeds \<Rightarrow>
                     Some (if length feeds > 0 then assign m6 ''feeds'' (StrList feeds) else m6)))"

text \<open>Lines 146 to 157: the object literal \<^verbatim>\<open>result\<close>. Its first eight
  properties are written from the final URL and the scraper's answer, then
  \<^verbatim>\<open>additionalMeta\<close> is spread over them, then \<^verbatim>\<open>extractedAt\<close> is written.\<close>

definition rule_based :: "string \<Rightarrow> metadata \<Rightarrow> obj" where
  "rule_based targetUrl md =
     [(''url'', Str targetUrl),
      (''title'', title md),
      (''description'', description md),
      (''image'', image md),
      (''logo'', logo md),
      (''author'', author md),
      (''date'', date md),
      (''publisher'', publisher md)]"

definition assemble :: "string \<Rightarrow> metadata \<Rightarrow> obj \<Rightarrow> string \<Rightarrow> obj" where
  "assemble targetUrl md aux now =
     AList.update ''extractedAt'' (Str now) (spread (rule_based targetUrl md) aux)"

text \<open>Lines 69 to 157, the extraction stage on a fetched document: \<open>None\<close> when
  the scraper rejects or a URL constructor throws.\<close>

definition extraction :: "env \<Rightarrow> string \<Rightarrow> string \<Rightarrow> obj option" where
  "extraction E html targetUrl =
     (case scraper E html targetUrl of
        None \<Rightarrow> None
      | Some md \<Rightarrow>
          (case additionalMeta E (load E html) targetUrl of
             None \<Rightarrow> None
           | Some aux \<Rightarrow> Some (assemble targetUrl md aux (toISOString E))))"

text \<open>
  A request: \<^verbatim>\<open>await request.json()\<close> throws or the destructuring fails
  (\<open>BadBody\<close>), or it gives an object whose \<^verbatim>\<open>url\<close> is a string or is missing.
  (A \<^verbatim>\<open>url\<close> that is not a string is outside the model.)
\<close>

datatype request = BadBody | Body "string option"

text \<open>A reply of \<^verbatim>\<open>NextResponse.json\<close>: the status and the serialised object.\<close>

datatype reply = Reply nat obj

definition error_reply :: "nat \<Rightarrow> string \<Rightarrow> reply" where
  "error_reply code msg = Reply code [(''error'', Str msg)]"

definition internal_error :: reply where
  "internal_error = error_reply 500 ''Failed to extract metadata''"

text \<open>The handler. The first component of the result is the list of the URLs it called
  \<^verbatim>\<open>fetch\<close> on.\<close>

definition POST :: "env \<Rightarrow> request \<Rightarrow> string list \<times> reply" where
  "POST E req =
     (case req of
        BadBody \<Rightarrow> ([], internal_error)
      | Body None \<Rightarrow> ([], error_reply 400 ''URL is required'')
      | Body (Some u) \<Rightarrow>
          if u = [] then ([], error_reply 400 ''URL is required'')
          else if \<not> isValidUrl E u then ([], error_reply 400 ''Invalid URL format'')
          else
            (case fetch E u of
               Rejects \<Rightarrow> ([u], internal_error)
             | Resolves r \<Rightarrow>
                 if \<not> ok r then
                   ([u], error_reply 400
                      (''Failed to fetch webpage: '' @ digits (status r) @ '' '' @ statusText r))
                 else
                   (case body_text r of
                      None \<Rightarrow> ([u], internal_error)
                    | Some html \<Rightarrow>
                        (case extraction E html (url r) of
                           None \<Rightarrow> ([u], internal_error)
                         | Some result \<Rightarrow> ([u], Reply 200 (stringify result))))))"

subsection \<open>A reference environment\<close>

text \<open>
  Closed examples need a concrete environment. \<open>URL_parse\<close> follows the state machine
  of the URL standard (scheme start, scheme, no scheme, special authority, path or
  authority, opaque path, relative, relative slash, query, fragment) on plain input:
  userinfo and ports are kept as part of the host as written, and percent-encoding,
  host validation, backslashes, white space stripping, dot segments and the
  \<^verbatim>\<open>file\<close> scheme's own states are left out. Every example below stays inside
  that plain part, and the general theorems do not use \<open>URL_parse\<close> at all.
\<close>

definition isAlpha :: "char \<Rightarrow> bool" where
  "isAlpha c = (let n = (of_char c :: nat) in (65 \<le> n \<and> n \<le> 90) \<or> (97 \<le> n \<and> n \<le> 122))"

definition isSchemeChar :: "char \<Rightarrow> bool" where
  "isSchemeChar c = (let n = (of_char c :: nat) in
     isAlpha c \<or> (48 \<le> n \<and> n \<le> 57) \<or> c = CHR ''+'' \<or> c = CHR ''-'' \<or> c = CHR ''.'')"

text \<open>Scheme start state and scheme state: the lower-cased scheme and what follows the
  colon, or \<open>None\<close> when the input has no scheme.\<close>

definition parse_scheme :: "string \<Rightarrow> (string \<times> string) option" where
  "parse_scheme s =
     (case s of
        [] \<Rightarrow> None
      | c # cs \<Rightarrow>
          if isAlpha c then
            (case dropWhile isSchemeChar cs of
               [] \<Rightarrow> None
             | d # rest \<Rightarrow>
                 if d = CHR '':'' then Some (map toLower (c # takeWhile isSchemeChar cs), rest)
                 else None)
          else None)"

definition special :: "string \<Rightarrow> bool" where
  "special sch = (sch \<in> set [''http'', ''https'', ''ftp'', ''ws'', ''wss''])"

definition isPathEnd :: "char \<Rightarrow> bool" where
  "isPathEnd c = (c = CHR ''?'' \<or> c = CHR ''#'')"

definition isHostEnd :: "char \<Rightarrow> bool" where
  "isHostEnd c = (c = CHR ''/'' \<or> c = CHR ''?'' \<or> c = CHR ''#'')"

text \<open>Path, query and fragment of what is left after the host.\<close>

definition parse_tail :: "string \<Rightarrow> string \<times> string option \<times> string option" where
  "parse_tail s =
     (let p = takeWhile (\<lambda>c. \<not> isPathEnd c) s;
          r = dropWhile (\<lambda>c. \<not> isPathEnd c) s;
          q = (case r of
                 [] \<Rightarrow> None
               | c # r' \<Rightarrow> if c = CHR ''?'' then Some (takeWhile (\<lambda>c. c \<noteq> CHR ''#'') r') else None);
          f = (case dropWhile (\<lambda>c. c \<noteq> CHR ''#'') r of [] \<Rightarrow> None | _ # r' \<Rightarrow> Some r')
      in (p, q, f))"

text \<open>Authority and host state, then the rest: a special scheme needs a host.\<close>

definition parse_authority :: "string \<Rightarrow> string \<Rightarrow> URL option" where
  "parse_authority sch s =
     (let h = takeWhile (\<lambda>c. \<not> isHostEnd c) s;
          t = parse_tail (dropWhile (\<lambda>c. \<not> isHostEnd c) s)
      in if h = [] \<and> special sch then None
         else Some \<lparr>scheme = sch, host = Some (map toLower h),
                    path = (if fst t = [] \<and> special sch then ''/'' else fst t),
                    opaque = False, query = fst (snd t), fragment = snd (snd t)\<rparr>)"

text \<open>The path of the base without its last segment.\<close>

definition dirname :: "string \<Rightarrow> string" where
  "dirname p = (if CHR ''/'' \<in> set p then rev (dropWhile (\<lambda>c. c \<noteq> CHR ''/'') (rev p)) else ''/'')"

text \<open>No scheme state with a base, relative state and relative slash state.\<close>

definition parse_relative :: "URL \<Rightarrow> string \<Rightarrow> URL option" where
  "parse_relative b s =
     (if opaque b then
        (case s of
           [] \<Rightarrow> None
         | c # r \<Rightarrow> if c = CHR ''#'' then Some (b\<lparr>fragment := Some r\<rparr>) else None)
      else if startsWith s ''//'' then
        parse_authority (scheme b)
          (if special (scheme b) then dropWhile (\<lambda>c. c = CHR ''/'') s else drop 2 s)
      else
        (case s of
           [] \<Rightarrow> Some (b\<lparr>fragment := None\<rparr>)
         | c # r \<Rightarrow>
             (let t = parse_tail s in
              if c = CHR ''/'' then
                Some (b\<lparr>path := fst t, query := fst (snd t), fragment := snd (snd t)\<rparr>)
              else if c = CHR ''?'' then
                Some (b\<lparr>query := fst (snd t), fragment := snd (snd t)\<rparr>)
              else if c = CHR ''#'' then
                Some (b\<lparr>fragment := Some r\<rparr>)
              else
                Some (b\<lparr>path := dirname (path b) @ fst t,
                        query := fst (snd t), fragment := snd (snd t)\<rparr>))))"

definition parse_with :: "string \<Rightarrow> URL option \<Rightarrow> URL option" where
  "parse_with s base =
     (case parse_scheme s of
        None \<Rightarrow> (case base of None \<Rightarrow> None | Some b \<Rightarrow> parse_relative b s)
      | Some (sch, r) \<Rightarrow>
          if special sch then
            (case base of
               None \<Rightarrow> parse_authority sch (dropWhile (\<lambda>c. c = CHR ''/'') r)
             | Some b \<Rightarrow>
                 if scheme b = sch \<and> \<not> startsWith r ''//'' then parse_relative b r
                 else parse_authority sch (dropWhile (\<lambda>c. c = CHR ''/'') r))
          else if startsWith r ''//'' then parse_authority sch (drop 2 r)
          else
            (let t = parse_tail r in
             Some \<lparr>scheme = sch, host = None, path = fst t,
                   opaque = (\<not> startsWith r ''/''), query = fst (snd t), fragment = snd (snd t)\<rparr>))"

text \<open>\<^verbatim>\<open>new URL(s)\<close> and \<^verbatim>\<open>new URL(s, base)\<close>: the base is parsed first, and
  a base that does not parse is a failure.\<close>

definition URL_parse :: "string \<Rightarrow> string option \<Rightarrow> URL option" where
  "URL_parse s base =
     (case base of
        None \<Rightarrow> parse_with s None
      | Some b \<Rightarrow> (case parse_with b None of None \<Rightarrow> None | Some bu \<Rightarrow> parse_with s (Some bu)))"

text \<open>
  A site that serves one page, at \<^verbatim>\<open>https://example.com/page\<close>, with status 200
  and no redirect; \<open>fetch\<close> rejects for every other URL. The document tree of the page
  and the scraper's answer for it are the parameters.
\<close>

definition page_url :: string where
  "page_url = ''https://example.com/page''"

definition site :: "element list \<Rightarrow> metadata \<Rightarrow> env" where
  "site doc md =
     \<lparr>URL_new = URL_parse,
      fetch = (\<lambda>u. if u = page_url
                    then Resolves \<lparr>status = 200, statusText = ''OK'', url = page_url,
                                   body_text = Some ''<html>''\<rparr>
                    else Rejects),
      scraper = (\<lambda>html u. Some md),
      load = (\<lambda>html. doc),
      toISOString = ''2024-01-01T00:00:00.000Z''\<rparr>"

text \<open>A scraper answer with no field found, as \<^verbatim>\<open>undefined\<close> and as
  \<^verbatim>\<open>null\<close>.\<close>

definition md_undefined :: metadata where
  "md_undefined = \<lparr>title = Undefined, description = Undefined, image = Undefined,
     logo = Undefined, author = Undefined, date = Undefined, publisher = Undefined\<rparr>"

definition md_null :: metadata where
  "md_null = \<lparr>title = Null, description = Null, image = Null,
     logo = Null, author = Null, date = Null, publisher = Null\<rparr>"

definition meta_tag :: "string \<Rightarrow> string \<Rightarrow> string \<Rightarrow> element" where
  "meta_tag a k c = \<lparr>tag = ''meta'', attribs = [(a, k), (''content'', c)]\<rparr>"

definition link_tag :: "string \<Rightarrow> string \<Rightarrow> string \<Rightarrow> element" where
  "link_tag a v h = \<lparr>tag = ''link'', attribs = [(a, v), (''href'', h)]\<rparr>"

subsection \<open>Notions used in the statements\<close>

text \<open>A value that is there: a non-empty string, or a non-empty list of non-empty
  strings.\<close>

definition present :: "jsval \<Rightarrow> bool" where
  "present v = (case v of Str s \<Rightarrow> s \<noteq> [] | StrList l \<Rightarrow> l \<noteq> [] \<and> [] \<notin> set l | _ \<Rightarrow> False)"

text \<open>The request for \<open>u\<close> passes validation and \<^verbatim>\<open>fetch\<close> answers with a 2xx
  response whose body text is \<open>html\<close> and whose final URL is \<open>targetUrl\<close>: the handler
  reaches the extraction stage.\<close>

definition delivers :: "env \<Rightarrow> string \<Rightarrow> string \<Rightarrow> string \<Rightarrow> bool" where
  "delivers E u html targetUrl =
     (u \<noteq> [] \<and> isValidUrl E u \<and>
      (case fetch E u of
         Rejects \<Rightarrow> False
       | Resolves r \<Rightarrow> ok r \<and> body_text r = Some html \<and> url r = targetUrl))"

text \<open>The non-empty \<^verbatim>\<open>href\<close> values of a list of elements, in order, repetitions
  kept.\<close>

definition hrefs :: "element list \<Rightarrow> string list" where
  "hrefs es =
     concat (map (\<lambda>e. case attr e ''href'' of None \<Rightarrow> [] | Some h \<Rightarrow> if h = [] then [] else [h]) es)"

text \<open>The non-empty \<^verbatim>\<open>content\<close> of an element, if it has one; the contents that
  the elements of \<open>es\<close> whose attribute \<open>a\<close> is \<open>k\<close> bring, in order.\<close>

definition content_list :: "element \<Rightarrow> string list" where
  "content_list e = (case attr e ''content'' of None \<Rightarrow> [] | Some c \<Rightarrow> if c = [] then [] else [c])"

definition occurrences :: "string \<Rightarrow> string \<Rightarrow> element list \<Rightarrow> string list" where
  "occurrences a k es = concat (map content_list (filter (\<lambda>e. attr e a = Some k) es))"

definition last_opt :: "'a list \<Rightarrow> 'a option" where
  "last_opt xs = (if xs = [] then None else Some (last xs))"

text \<open>
  Last-write-wins as the specification words it, for comparison with \<open>meta_sweeps\<close>:
  a meta tag carries the key \<open>k\<close> when \<open>k\<close> is its \<^verbatim>\<open>og:\<close> property or its name,
  and the value recorded for \<open>k\<close> is the content of the last tag in document order that
  carries \<open>k\<close>.
\<close>

definition carries_key :: "string \<Rightarrow> element \<Rightarrow> bool" where
  "carries_key k e =
     (tag e = ''meta'' \<and>
      ((startsWith k ''og:'' \<and> attr e ''property'' = Some k) \<or> attr e ''name'' = Some k))"

definition last_write_wins :: "element list \<Rightarrow> string \<Rightarrow> jsval option" where
  "last_write_wins doc k =
     map_option Str (last_opt (concat (map content_list (filter (carries_key k) doc))))"

text \<open>The keys that the steps after the sweeps write for this document: the canonical
  link, the favicon, the page language, the feeds.\<close>

definition written_after_sweeps :: "element list \<Rightarrow> string \<Rightarrow> bool" where
  "written_after_sweeps doc k =
     ((k = ''canonical'' \<and> truthy (first_attr (filter (sel_link_rel ''canonical'') doc) ''href'')) \<or>
      (k = ''favicon'' \<and> truthy (favicon_candidate doc)) \<or>
      (k = ''language'' \<and> truthy (lang_candidate doc)) \<or>
      (k = ''feeds'' \<and> hrefs (filter sel_feed doc) \<noteq> []))"

section \<open>Properties\<close>

subsection \<open>Objects\<close>

lemma distinct_spread: "distinct (map fst lit) \<Longrightarrow> distinct (map fst (spread lit ob))"
  by (induction ob rule: rev_induct) (simp_all add: spread_def distinct_update)

lemma map_of_spread:
  "map_of (spread lit ob) k = (case map_of (rev ob) k of Some v \<Rightarrow> Some v | None \<Rightarrow> map_of lit k)"
  by (induction ob rule: rev_induct) (simp_all add: spread_def update_conv')

lemma map_of_rev_distinct: "distinct (map fst xs) \<Longrightarrow> map_of (rev xs) = map_of xs"
  by (rule ext)
    (metis distinct_rev map_of_eq_Some_iff rev_map set_rev not_Some_eq map_of_eq_None_iff image_set)

lemma distinct_assign: "distinct (map fst ob) \<Longrightarrow> distinct (map fst (assign ob k v))"
  by (simp add: assign_def distinct_update)

lemma map_of_assign:
  "map_of (assign ob k v) k' =
     (if k = ''__proto__'' then map_of ob k' else if k' = k then Some v else map_of ob k')"
  by (simp add: assign_def update_conv')

lemma set_update_subset: "set (AList.update k v al) \<subseteq> insert (k, v) (set al)"
  by (induction al) auto

lemma filter_update_key:
  "filter (\<lambda>kv. fst kv \<noteq> k) (AList.update k v al) = filter (\<lambda>kv. fst kv \<noteq> k) al"
  by (induction al) auto

lemma map_of_stringify:
  "distinct (map fst ob) \<Longrightarrow>
   map_of (stringify ob) k =
     (case map_of ob k of None \<Rightarrow> None | Some v \<Rightarrow> if v = Undefined then None else Some v)"
  by (induction ob) (auto simp: stringify_def rev_image_eqI split: option.splits)

lemma distinct_stringify: "distinct (map fst ob) \<Longrightarrow> distinct (map fst (stringify ob))"
  by (simp add: stringify_def distinct_map_filter)

subsection \<open>Decimal digits\<close>

lemma digit_value_nth: "n < 10 \<Longrightarrow> digit_value (''0123456789'' ! n) = n"
proof -
  assume "n < 10"
  then have "n \<in> {0, 1, 2, 3, 4, 5, 6, 7, 8, 9}" by auto
  then show ?thesis by (auto simp: digit_value_def)
qed

lemma digits_value: "foldl (\<lambda>a c. 10 * a + digit_value c) 0 (digits n) = n"
proof (induction n rule: digits.induct)
  case (1 n)
  show ?case
  proof (cases "n < 10")
    case True
    then show ?thesis by (subst digits.simps) (simp add: digit_value_nth)
  next
    case False
    with 1 show ?thesis by (subst digits.simps) (simp add: digit_value_nth)
  qed
qed

subsection \<open>The collected object: distinct keys, values that are there\<close>

lemma distinct_collect_meta: "distinct (map fst m) \<Longrightarrow> distinct (map fst (collect_meta a m e))"
  by (simp add: collect_meta_def distinct_assign split: option.splits)

lemma distinct_sweep: "distinct (map fst m) \<Longrightarrow> distinct (map fst (foldl (collect_meta a) m es))"
  by (induction es arbitrary: m) (simp_all add: distinct_collect_meta)

lemma distinct_meta_sweeps: "distinct (map fst (meta_sweeps doc))"
  by (simp add: meta_sweeps_def Let_def distinct_sweep)

lemma distinct_additionalMeta:
  "additionalMeta E doc u = Some aux \<Longrightarrow> distinct (map fst aux)"
  by (auto simp: additionalMeta_def Let_def distinct_assign distinct_meta_sweeps
      split: if_splits option.splits)

lemma distinct_assemble: "distinct (map fst (assemble u md aux now))"
  by (simp add: assemble_def distinct_update distinct_spread rule_based_def)

lemma present_Str: "present (Str c) \<longleftrightarrow> c \<noteq> []"
  by (simp add: present_def)

lemma present_assign:
  "list_all (\<lambda>kv. present (snd kv)) ob \<Longrightarrow> present v \<Longrightarrow>
   list_all (\<lambda>kv. present (snd kv)) (assign ob k v)"
  using set_update_subset [of k v ob] by (auto simp: assign_def list_all_iff)

lemma present_collect_meta:
  "list_all (\<lambda>kv. present (snd kv)) m \<Longrightarrow> list_all (\<lambda>kv. present (snd kv)) (collect_meta a m e)"
  by (simp add: collect_meta_def present_assign present_Str split: option.splits)

lemma present_sweep:
  "list_all (\<lambda>kv. present (snd kv)) m \<Longrightarrow>
   list_all (\<lambda>kv. present (snd kv)) (foldl (collect_meta a) m es)"
  by (induction es arbitrary: m) (simp_all add: present_collect_meta)

lemma present_meta_sweeps: "list_all (\<lambda>kv. present (snd kv)) (meta_sweeps doc)"
  by (simp add: meta_sweeps_def Let_def present_sweep)

lemma present_lookup:
  "list_all (\<lambda>kv. present (snd kv)) ob \<Longrightarrow> map_of ob k = Some v \<Longrightarrow> present v"
  by (force simp: list_all_iff dest!: map_of_SomeD)

lemma present_not_Undefined: "present v \<Longrightarrow> v \<noteq> Undefined"
  by (auto simp: present_def)

lemma href_nonempty: "href U \<noteq> []"
  by (simp add: href_def)

lemma resolve_nonempty: "resolve E t x = Some y \<Longrightarrow> x \<noteq> [] \<Longrightarrow> y \<noteq> []"
  by (auto simp: resolve_def href_nonempty split: if_splits)

subsection \<open>The feed loop and the collected object in closed form\<close>

lemma those_Some_iff: "those xs = Some ys \<longleftrightarrow> xs = map Some ys"
  by (induction xs arbitrary: ys) (auto split: option.splits)

lemma those_None_iff: "those xs = None \<longleftrightarrow> None \<in> set xs"
  by (induction xs) (auto split: option.splits)

lemma collect_feeds_eq:
  "collect_feeds E t es acc = map_option (\<lambda>fs. acc @ fs) (those (map (resolve E t) (hrefs es)))"
proof (induction es arbitrary: acc)
  case Nil
  then show ?case by (simp add: hrefs_def)
next
  case (Cons e es)
  show ?case
  proof (cases "truthy (attr e ''href'')")
    case False
    then have "hrefs (e # es) = hrefs es"
      by (auto simp: hrefs_def truthy_def split: option.splits)
    with False Cons show ?thesis by simp
  next
    case True
    then obtain h where h: "attr e ''href'' = Some h" "h \<noteq> []"
      by (auto simp: truthy_def split: option.splits)
    then have hs: "hrefs (e # es) = h # hrefs es" by (simp add: hrefs_def)
    show ?thesis
    proof (cases "resolve E t h")
      case None
      with True h hs show ?thesis by simp
    next
      case (Some y)
      with True h hs Cons [of "acc @ [y]"] show ?thesis
        by (simp add: option.map_comp comp_def)
    qed
  qed
qed

lemma hrefs_nonempty: "[] \<notin> set (hrefs es)"
  by (auto simp: hrefs_def split: option.splits if_splits)

lemma feeds_nonempty:
  assumes "map Some fs = map (resolve E t) (hrefs es)"
  shows "[] \<notin> set fs"
proof
  assume "[] \<in> set fs"
  then obtain i where i: "i < length fs" "fs ! i = []" by (auto simp: in_set_conv_nth)
  from assms have len: "length fs = length (hrefs es)" by (metis length_map)
  from assms i len have "resolve E t (hrefs es ! i) = Some []"
    by (metis nth_map)
  moreover have "hrefs es ! i \<noteq> []" using hrefs_nonempty [of es] i len by (metis nth_mem)
  ultimately show False using resolve_nonempty by blast
qed

lemma additionalMeta_eq:
  "additionalMeta E doc t =
     (let fav = favicon_candidate doc;
          canon = first_attr (filter (sel_link_rel ''canonical'') doc) ''href'';
          lang = lang_candidate doc;
          m4 = (if truthy canon then assign (meta_sweeps doc) ''canonical'' (Str (the canon))
                else meta_sweeps doc)
      in case (if truthy fav then resolve E t (the fav) else Some []) of
           None \<Rightarrow> None
         | Some f \<Rightarrow>
             (case those (map (resolve E t) (hrefs (filter sel_feed doc))) of
                None \<Rightarrow> None
              | Some feeds \<Rightarrow>
                  (let m5 = (if truthy fav then assign m4 ''favicon'' (Str f) else m4);
                       m6 = (if truthy lang then assign m5 ''language'' (Str (the lang)) else m5)
                   in Some (if feeds \<noteq> [] then assign m6 ''feeds'' (StrList feeds) else m6))))"
  by (simp add: additionalMeta_def Let_def collect_feeds_eq split: option.splits)

lemma present_additionalMeta:
  assumes "additionalMeta E doc t = Some aux"
  shows "list_all (\<lambda>kv. present (snd kv)) aux"
proof -
  let ?P = "list_all (\<lambda>kv. present (snd kv))"
  let ?fav = "favicon_candidate doc"
  let ?canon = "first_attr (filter (sel_link_rel ''canonical'') doc) ''href''"
  let ?lang = "lang_candidate doc"
  let ?m4 = "if truthy ?canon then assign (meta_sweeps doc) ''canonical'' (Str (the ?canon))
             else meta_sweeps doc"
  have str: "\<And>a. truthy a \<Longrightarrow> present (Str (the a))"
    by (auto simp: truthy_def present_def split: option.splits)
  have m4: "?P ?m4" by (simp add: present_assign present_meta_sweeps str)
  from assms obtain f feeds where
    f: "(if truthy ?fav then resolve E t (the ?fav) else Some []) = Some f" and
    feeds: "those (map (resolve E t) (hrefs (filter sel_feed doc))) = Some feeds" and
    aux: "aux = (let m5 = (if truthy ?fav then assign ?m4 ''favicon'' (Str f) else ?m4);
                     m6 = (if truthy ?lang then assign m5 ''language'' (Str (the ?lang)) else m5)
                 in if feeds \<noteq> [] then assign m6 ''feeds'' (StrList feeds) else m6)"
    by (auto simp: additionalMeta_eq Let_def split: option.splits)
  have pf: "truthy ?fav \<Longrightarrow> present (Str f)"
    using f resolve_nonempty [of E t "the ?fav" f]
    by (auto simp: truthy_def present_def split: option.splits)
  let ?m5 = "if truthy ?fav then assign ?m4 ''favicon'' (Str f) else ?m4"
  have m5: "?P ?m5" using m4 pf by (simp add: present_assign)
  let ?m6 = "if truthy ?lang then assign ?m5 ''language'' (Str (the ?lang)) else ?m5"
  have m6: "?P ?m6" using m5 by (simp add: present_assign str)
  have "feeds \<noteq> [] \<Longrightarrow> present (StrList feeds)"
    using feeds feeds_nonempty [of feeds E t "filter sel_feed doc"]
    by (simp add: present_def those_Some_iff)
  with m6 have "?P (if feeds \<noteq> [] then assign ?m6 ''feeds'' (StrList feeds) else ?m6)"
    by (simp add: present_assign)
  with aux show ?thesis by (simp add: Let_def)
qed

lemma aux_lookup:
  assumes "additionalMeta E doc t = Some aux"
  shows "\<exists>f feeds.
           (if truthy (favicon_candidate doc) then resolve E t (the (favicon_candidate doc))
            else Some []) = Some f \<and>
           map Some feeds = map (resolve E t) (hrefs (filter sel_feed doc)) \<and>
           map_of aux ''favicon'' =
             (if truthy (favicon_candidate doc) then Some (Str f)
              else map_of (meta_sweeps doc) ''favicon'') \<and>
           map_of aux ''feeds'' =
             (if feeds \<noteq> [] then Some (StrList feeds) else map_of (meta_sweeps doc) ''feeds'')"
proof -
  let ?fav = "favicon_candidate doc"
  let ?canon = "first_attr (filter (sel_link_rel ''canonical'') doc) ''href''"
  let ?lang = "lang_candidate doc"
  let ?m4 = "if truthy ?canon then assign (meta_sweeps doc) ''canonical'' (Str (the ?canon))
             else meta_sweeps doc"
  from assms obtain f feeds where
    f: "(if truthy ?fav then resolve E t (the ?fav) else Some []) = Some f" and
    feeds: "those (map (resolve E t) (hrefs (filter sel_feed doc))) = Some feeds" and
    aux: "aux = (let m5 = (if truthy ?fav then assign ?m4 ''favicon'' (Str f) else ?m4);
                     m6 = (if truthy ?lang then assign m5 ''language'' (Str (the ?lang)) else m5)
                 in if feeds \<noteq> [] then assign m6 ''feeds'' (StrList feeds) else m6)"
    by (auto simp: additionalMeta_eq Let_def split: option.splits)
  have 1: "map_of aux ''favicon'' =
      (if truthy ?fav then Some (Str f) else map_of (meta_sweeps doc) ''favicon'')"
    unfolding aux by (simp add: Let_def map_of_assign)
  have 2: "map_of aux ''feeds'' =
      (if feeds \<noteq> [] then Some (StrList feeds) else map_of (meta_sweeps doc) ''feeds'')"
    unfolding aux by (simp add: Let_def map_of_assign)
  from feeds have 3: "map Some feeds = map (resolve E t) (hrefs (filter sel_feed doc))"
    by (simp add: those_Some_iff)
  from f 1 2 3 show ?thesis by blast
qed

lemma aux_lookup_key:
  assumes "additionalMeta E doc t = Some aux"
  shows "\<exists>f feeds.
           (if truthy (favicon_candidate doc) then resolve E t (the (favicon_candidate doc))
            else Some []) = Some f \<and>
           map Some feeds = map (resolve E t) (hrefs (filter sel_feed doc)) \<and>
           (\<forall>k. map_of aux k =
             (if k = ''feeds'' \<and> feeds \<noteq> [] then Some (StrList feeds)
              else if k = ''language'' \<and> truthy (lang_candidate doc)
                then Some (Str (the (lang_candidate doc)))
              else if k = ''favicon'' \<and> truthy (favicon_candidate doc) then Some (Str f)
              else if k = ''canonical'' \<and>
                      truthy (first_attr (filter (sel_link_rel ''canonical'') doc) ''href'')
                then Some (Str (the (first_attr (filter (sel_link_rel ''canonical'') doc) ''href'')))
              else map_of (meta_sweeps doc) k))"
proof -
  let ?fav = "favicon_candidate doc"
  let ?canon = "first_attr (filter (sel_link_rel ''canonical'') doc) ''href''"
  let ?lang = "lang_candidate doc"
  let ?m4 = "if truthy ?canon then assign (meta_sweeps doc) ''canonical'' (Str (the ?canon))
             else meta_sweeps doc"
  from assms obtain f feeds where
    f: "(if truthy ?fav then resolve E t (the ?fav) else Some []) = Some f" and
    feeds: "those (map (resolve E t) (hrefs (filter sel_feed doc))) = Some feeds" and
    aux: "aux = (let m5 = (if truthy ?fav then assign ?m4 ''favicon'' (Str f) else ?m4);
                     m6 = (if truthy ?lang then assign m5 ''language'' (Str (the ?lang)) else m5)
                 in if feeds \<noteq> [] then assign m6 ''feeds'' (StrList feeds) else m6)"
    by (auto simp: additionalMeta_eq Let_def split: option.splits)
  have 1: "map_of aux k =
      (if k = ''feeds'' \<and> feeds \<noteq> [] then Some (StrList feeds)
       else if k = ''language'' \<and> truthy ?lang then Some (Str (the ?lang))
       else if k = ''favicon'' \<and> truthy ?fav then Some (Str f)
       else if k = ''canonical'' \<and> truthy ?canon then Some (Str (the ?canon))
       else map_of (meta_sweeps doc) k)" for k
    unfolding aux by (simp add: Let_def map_of_assign)
  from feeds have 3: "map Some feeds = map (resolve E t) (hrefs (filter sel_feed doc))"
    by (simp add: those_Some_iff)
  from f 1 3 show ?thesis by blast
qed

lemma additionalMeta_throws:
  assumes "(\<exists>h. favicon_candidate doc = Some h \<and> h \<noteq> [] \<and> resolve E t h = None) \<or>
           (\<exists>h\<in>set (hrefs (filter sel_feed doc)). resolve E t h = None)"
  shows "additionalMeta E doc t = None"
  using assms
proof
  assume "\<exists>h. favicon_candidate doc = Some h \<and> h \<noteq> [] \<and> resolve E t h = None"
  then show ?thesis by (auto simp: additionalMeta_eq Let_def truthy_def)
next
  assume "\<exists>h\<in>set (hrefs (filter sel_feed doc)). resolve E t h = None"
  then have "None \<in> set (map (resolve E t) (hrefs (filter sel_feed doc)))"
    by (metis image_eqI set_map)
  then have "those (map (resolve E t) (hrefs (filter sel_feed doc))) = None"
    by (simp only: those_None_iff)
  then show ?thesis by (simp add: additionalMeta_eq Let_def split: option.splits)
qed

subsection \<open>The handler on a delivered page\<close>

lemma POST_delivers:
  "delivers E u html t \<Longrightarrow>
   POST E (Body (Some u)) =
     ([u], case extraction E html t of None \<Rightarrow> internal_error | Some r \<Rightarrow> Reply 200 (stringify r))"
  by (auto simp: delivers_def POST_def split: fetched.splits option.splits)

lemma POST_success:
  assumes "POST E req = (log, Reply 200 body)"
  shows "\<exists>u html t r. req = Body (Some u) \<and> log = [u] \<and> delivers E u html t \<and>
      extraction E html t = Some r \<and> body = stringify r"
proof (cases req)
  case BadBody
  with assms show ?thesis by (simp add: POST_def internal_error_def error_reply_def)
next
  case (Body b)
  show ?thesis
  proof (cases b)
    case None
    with Body assms show ?thesis by (simp add: POST_def error_reply_def)
  next
    case (Some u)
    note req = Body Some
    from assms req have u: "u \<noteq> []" "isValidUrl E u"
      by (auto simp: POST_def error_reply_def split: if_splits)
    show ?thesis
    proof (cases "fetch E u")
      case Rejects
      with assms req u show ?thesis by (simp add: POST_def internal_error_def error_reply_def)
    next
      case (Resolves r)
      from assms req u Resolves have okr: "ok r"
        by (auto simp: POST_def error_reply_def split: if_splits)
      from assms req u Resolves okr obtain html where html: "body_text r = Some html"
        by (cases "body_text r") (auto simp: POST_def internal_error_def error_reply_def)
      from assms req u Resolves okr html obtain res where res: "extraction E html (url r) = Some res"
        by (cases "extraction E html (url r)") (auto simp: POST_def internal_error_def error_reply_def)
      from assms req u Resolves okr html res have "log = [u]" "body = stringify res"
        by (auto simp: POST_def)
      moreover have "delivers E u html (url r)"
        using u Resolves okr html by (simp add: delivers_def)
      ultimately show ?thesis using req res by blast
    qed
  qed
qed

lemma extraction_Some:
  "extraction E html t = Some r \<longleftrightarrow>
   (\<exists>md aux. scraper E html t = Some md \<and> additionalMeta E (load E html) t = Some aux \<and>
      r = assemble t md aux (toISOString E))"
  by (auto simp: extraction_def split: option.splits)

lemma map_of_assemble:
  "distinct (map fst aux) \<Longrightarrow>
   map_of (assemble u md aux now) k =
     (if k = ''extractedAt'' then Some (Str now)
      else case map_of aux k of Some v \<Rightarrow> Some v | None \<Rightarrow> map_of (rule_based u md) k)"
  by (simp add: assemble_def update_conv' map_of_spread map_of_rev_distinct)

lemma POST_result:
  assumes "delivers E u html t" and "scraper E html t = Some md"
    and "additionalMeta E (load E html) t = Some aux"
  shows "POST E (Body (Some u)) =
           ([u], Reply 200 (stringify (assemble t md aux (toISOString E))))"
  using assms by (simp add: POST_delivers extraction_def)

lemma map_of_result:
  assumes "additionalMeta E doc t = Some aux"
  shows "map_of (stringify (assemble t md aux now)) k =
     (if k = ''extractedAt'' then Some (Str now)
      else case map_of aux k of
             Some v \<Rightarrow> Some v
           | None \<Rightarrow> map_of (stringify (rule_based t md)) k)"
proof -
  have d: "distinct (map fst aux)" using assms by (rule distinct_additionalMeta)
  have r: "distinct (map fst (rule_based t md))" by (simp add: rule_based_def)
  have a: "map_of (stringify (assemble t md aux now)) k =
      (case map_of (assemble t md aux now) k of
         None \<Rightarrow> None
       | Some v \<Rightarrow> if v = Undefined then None else Some v)"
    by (rule map_of_stringify [OF distinct_assemble])
  show ?thesis
  proof (cases "k = ''extractedAt''")
    case True
    then show ?thesis unfolding a by (simp add: map_of_assemble [OF d])
  next
    case False
    show ?thesis
    proof (cases "map_of aux k")
      case None
      with False show ?thesis
        unfolding a by (simp add: map_of_assemble [OF d] map_of_stringify [OF r])
    next
      case (Some v)
      have "present v" by (rule present_lookup [OF present_additionalMeta [OF assms] Some])
      then have "v \<noteq> Undefined" by (rule present_not_Undefined)
      with False Some show ?thesis unfolding a by (simp add: map_of_assemble [OF d])
    qed
  qed
qed

subsection \<open>The clock\<close>

lemma resolve_clock: "resolve (E\<lparr>toISOString := c\<rparr>) = resolve E"
  by (rule ext)+ (simp add: resolve_def)

lemma collect_feeds_clock:
  "collect_feeds (E\<lparr>toISOString := c\<rparr>) t es acc = collect_feeds E t es acc"
  by (simp add: collect_feeds_eq resolve_clock)

lemma additionalMeta_clock:
  "additionalMeta (E\<lparr>toISOString := c\<rparr>) doc t = additionalMeta E doc t"
  unfolding additionalMeta_def collect_feeds_clock resolve_clock by (rule refl)

lemma extraction_clock:
  "extraction (E\<lparr>toISOString := c\<rparr>) html t =
     map_option (AList.update ''extractedAt'' (Str c)) (extraction E html t)"
  by (simp add: extraction_def assemble_def additionalMeta_clock split: option.splits)

subsection \<open>The meta sweeps\<close>

lemma map_of_collect_meta:
  assumes "k \<noteq> []" and "k \<noteq> ''__proto__''"
  shows "map_of (collect_meta a m e) k =
     (if attr e a = Some k \<and> content_list e \<noteq> [] then Some (Str (last (content_list e)))
      else map_of m k)"
  using assms
  by (auto simp: collect_meta_def content_list_def map_of_assign split: option.splits)

lemma collect_meta_proto:
  "map_of (collect_meta a m e) ''__proto__'' = map_of m ''__proto__''"
  by (auto simp: collect_meta_def map_of_assign split: option.splits)

lemma collect_meta_empty_key: "map_of (collect_meta a m e) [] = map_of m []"
  by (auto simp: collect_meta_def map_of_assign split: option.splits)

lemma sweep_proto:
  "map_of (foldl (collect_meta a) m es) ''__proto__'' = map_of m ''__proto__''"
  by (induction es arbitrary: m) (simp_all add: collect_meta_proto)

lemma sweep_empty_key:
  "map_of (foldl (collect_meta a) m es) [] = map_of m []"
  by (induction es arbitrary: m) (simp_all add: collect_meta_empty_key)

lemma meta_sweeps_proto: "map_of (meta_sweeps doc) ''__proto__'' = None"
  by (simp add: meta_sweeps_def Let_def sweep_proto)

lemma meta_sweeps_empty_key: "map_of (meta_sweeps doc) [] = None"
  by (simp add: meta_sweeps_def Let_def sweep_empty_key)

lemma last_opt_append:
  "last_opt (xs @ ys) = (if ys = [] then last_opt xs else last_opt ys)"
  by (simp add: last_opt_def)

lemma occurrences_snoc:
  "occurrences a k (es @ [e]) =
     occurrences a k es @ (if attr e a = Some k then content_list e else [])"
  by (simp add: occurrences_def)

lemma sweep_lookup:
  assumes "k \<noteq> []" and "k \<noteq> ''__proto__''"
  shows "map_of (foldl (collect_meta a) m es) k =
     (case last_opt (occurrences a k es) of Some c \<Rightarrow> Some (Str c) | None \<Rightarrow> map_of m k)"
proof (induction es rule: rev_induct)
  case Nil
  then show ?case by (simp add: occurrences_def last_opt_def)
next
  case (snoc e es)
  then show ?case
    by (simp add: map_of_collect_meta [OF assms] occurrences_snoc last_opt_append)
      (simp add: last_opt_def)
qed

lemma occurrences_nonempty_iff:
  "occurrences a k es \<noteq> [] \<longleftrightarrow> (\<exists>e\<in>set es. attr e a = Some k \<and> content_list e \<noteq> [])"
  by (auto simp: occurrences_def)

lemma occurrences_mono:
  assumes "\<And>e. P e \<Longrightarrow> Q e" and "occurrences a k (filter P es) \<noteq> []"
  shows "occurrences a k (filter Q es) \<noteq> []"
  using assms by (auto simp: occurrences_nonempty_iff)

lemma twitter_is_meta_name: "sel_twitter e \<Longrightarrow> sel_meta_name e"
  by (auto simp: sel_twitter_def sel_meta_name_def attr_prefix_def split: option.splits)

lemma concat_filter_cong:
  "(\<And>x. x \<in> set xs \<Longrightarrow> (if P x then f x else []) = (if Q x then g x else [])) \<Longrightarrow>
   concat (map f (filter P xs)) = concat (map g (filter Q xs))"
proof (induction xs)
  case Nil
  then show ?case by simp
next
  case (Cons x xs)
  from Cons.prems [of x] have "(if P x then f x else []) = (if Q x then g x else [])" by simp
  moreover have "concat (map f (filter P xs)) = concat (map g (filter Q xs))"
    using Cons.prems by (intro Cons.IH) simp
  ultimately show ?case by (auto split: if_splits)
qed

lemma meta_sweeps_lookup:
  assumes "k \<noteq> []" and "k \<noteq> ''__proto__''"
  shows "map_of (meta_sweeps doc) k =
           (case last_opt (occurrences ''name'' k (filter sel_meta_name doc)) of
              Some c \<Rightarrow> Some (Str c)
            | None \<Rightarrow> map_option Str (last_opt (occurrences ''property'' k (filter sel_og doc)))) \<and>
         (occurrences ''name'' k (filter sel_meta_name doc) = [] \<or>
          occurrences ''property'' k (filter sel_og doc) = [] \<longrightarrow>
            map_of (meta_sweeps doc) k = last_write_wins doc k)"
proof
  let ?N = "occurrences ''name'' k (filter sel_meta_name doc)"
  let ?T = "occurrences ''name'' k (filter sel_twitter doc)"
  let ?O = "occurrences ''property'' k (filter sel_og doc)"
  have tw: "?N = [] \<Longrightarrow> ?T = []"
    using occurrences_mono [of sel_twitter sel_meta_name "''name''" k doc] twitter_is_meta_name
    by blast
  show main: "map_of (meta_sweeps doc) k =
           (case last_opt ?N of Some c \<Rightarrow> Some (Str c) | None \<Rightarrow> map_option Str (last_opt ?O))"
  proof (cases "?N = []")
    case True
    with tw have "?T = []" by simp
    with True show ?thesis
      by (simp add: meta_sweeps_def Let_def sweep_lookup [OF assms] last_opt_def)
  next
    case False
    then show ?thesis
      by (simp add: meta_sweeps_def Let_def sweep_lookup [OF assms] last_opt_def)
  qed
  let ?L = "concat (map content_list (filter (carries_key k) doc))"
  show "?N = [] \<or> ?O = [] \<longrightarrow> map_of (meta_sweeps doc) k = last_write_wins doc k"
  proof
    assume "?N = [] \<or> ?O = []"
    then show "map_of (meta_sweeps doc) k = last_write_wins doc k"
    proof
      assume n: "?N = []"
      have "\<And>e. e \<in> set doc \<Longrightarrow> tag e = ''meta'' \<Longrightarrow> attr e ''name'' = Some k \<Longrightarrow>
          content_list e = []"
        using n by (auto simp: occurrences_def sel_meta_name_def)
      then have "?L = ?O"
        unfolding occurrences_def filter_filter
        by (intro concat_filter_cong)
          (auto simp: carries_key_def sel_og_def attr_prefix_def split: option.splits)
      with n show ?thesis by (simp add: main last_write_wins_def last_opt_def)
    next
      assume o: "?O = []"
      have "\<And>e. e \<in> set doc \<Longrightarrow> tag e = ''meta'' \<Longrightarrow> startsWith k ''og:'' \<Longrightarrow>
          attr e ''property'' = Some k \<Longrightarrow> content_list e = []"
        using o by (auto simp: occurrences_def sel_og_def attr_prefix_def)
      then have "?L = ?N"
        unfolding occurrences_def filter_filter
        by (intro concat_filter_cong)
          (auto simp: carries_key_def sel_meta_name_def split: option.splits)
      with o show ?thesis
        by (simp add: main last_write_wins_def last_opt_def split: option.splits)
    qed
  qed
qed

subsection \<open>Evaluating the reference environment\<close>

lemmas url_eval = URL_parse_def parse_with_def parse_scheme_def isAlpha_def isSchemeChar_def
  toLower_def special_def parse_authority_def isHostEnd_def parse_tail_def isPathEnd_def
  parse_relative_def dirname_def startsWith_def href_def page_url_def

lemmas post_eval = POST_def isValidUrl_def site_def extraction_def additionalMeta_def
  meta_sweeps_def collect_meta_def assign_def attr_def first_attr_def attr_prefix_def attr_is_def
  sel_og_def sel_twitter_def sel_meta_name_def sel_link_rel_def sel_feed_def sel_html_def
  sel_content_language_def truthy_def or_else_def favicon_candidate_def lang_candidate_def
  resolve_def assemble_def rule_based_def spread_def stringify_def ok_def
  meta_tag_def link_tag_def md_undefined_def md_null_def internal_error_def error_reply_def

lemma site_delivers: "delivers (site doc md) page_url ''<html>'' page_url"
  by (simp add: delivers_def site_def isValidUrl_def ok_def url_eval)

lemma site_scraper: "scraper (site doc md) html u = Some md"
  by (simp add: site_def)

lemma site_load: "load (site doc md) html = doc"
  by (simp add: site_def)

section \<open>The claims\<close>

subsection \<open>Validation and fetch failures\<close>

text \<open>
  C3, as the code has it. The validator accepts a string exactly when the URL constructor
  parses it without a base; it asks for nothing more, in particular not for a host. A
  request without a \<^verbatim>\<open>url\<close>, with the empty string, or with a string the
  constructor rejects is answered with status 400 and \<^verbatim>\<open>fetch\<close> is never called.
\<close>

theorem invalid_input_no_fetch:
  "(isValidUrl E s \<longleftrightarrow> URL_new E s None \<noteq> None) \<and>
   POST E (Body None) = ([], Reply 400 [(''error'', Str ''URL is required'')]) \<and>
   (s = [] \<longrightarrow> POST E (Body (Some s)) = ([], Reply 400 [(''error'', Str ''URL is required'')])) \<and>
   (s \<noteq> [] \<and> \<not> isValidUrl E s \<longrightarrow>
      POST E (Body (Some s)) = ([], Reply 400 [(''error'', Str ''Invalid URL format'')]))"
  by (auto simp: POST_def isValidUrl_def error_reply_def split: option.splits)

theorem invalid_input_no_fetch_witness:
  "\<not> isValidUrl (site [] md_undefined) ''not a url'' \<and>
   POST (site [] md_undefined) (Body (Some ''not a url'')) =
     ([], Reply 400 [(''error'', Str ''Invalid URL format'')]) \<and>
   POST (site [] md_undefined) (Body (Some [])) =
     ([], Reply 400 [(''error'', Str ''URL is required'')])"
proof -
  have a: "\<not> isValidUrl (site [] md_undefined) ''not a url''"
    by (simp add: isValidUrl_def site_def url_eval)
  show ?thesis
    using a invalid_input_no_fetch [of "site [] md_undefined" "''not a url''"]
      invalid_input_no_fetch [of "site [] md_undefined" "[]"]
    by simp
qed

text \<open>
  C3 as stated fails: \<^verbatim>\<open>mailto:a@b.c\<close> has a scheme and no authority (its host is
  null), the validator accepts it, \<^verbatim>\<open>fetch\<close> is called on it, and the reply is the
  500 of the \<^verbatim>\<open>catch\<close> block, not a 400.
\<close>

theorem host_not_required_counterexample:
  "isValidUrl (site [] md_undefined) ''mailto:a@b.c'' \<and>
   map_option host (URL_parse ''mailto:a@b.c'' None) = Some None \<and>
   POST (site [] md_undefined) (Body (Some ''mailto:a@b.c'')) =
     ([''mailto:a@b.c''], Reply 500 [(''error'', Str ''Failed to extract metadata'')])"
  by (simp add: POST_def isValidUrl_def site_def url_eval internal_error_def error_reply_def)

text \<open>
  C5. When the fetch completes with a status outside 200 to 299, the reply has status 400
  and its message is \<^verbatim>\<open>Failed to fetch webpage: \<close> followed by the status in
  decimal (\<open>digits\<close>, which reads back as the number by \<open>digits_value\<close>), a space
  and the reason phrase.
\<close>

theorem fetch_failed_non_2xx:
  assumes "u \<noteq> []" and "isValidUrl E u" and "fetch E u = Resolves r"
    and "status r < 200 \<or> 299 < status r"
  shows "POST E (Body (Some u)) =
           ([u], Reply 400 [(''error'',
              Str (''Failed to fetch webpage: '' @ digits (status r) @ '' '' @ statusText r))])"
  using assms by (auto simp: POST_def ok_def error_reply_def)

theorem fetch_failed_non_2xx_witness:
  "POST ((site [] md_undefined)\<lparr>fetch := (\<lambda>u. Resolves \<lparr>status = 404, statusText = ''Not Found'',
            url = u, body_text = Some []\<rparr>)\<rparr>) (Body (Some page_url)) =
     ([page_url], Reply 400 [(''error'', Str ''Failed to fetch webpage: 404 Not Found'')])"
proof -
  let ?E = "(site [] md_undefined)\<lparr>fetch := (\<lambda>u. Resolves \<lparr>status = 404, statusText = ''Not Found'',
            url = u, body_text = Some []\<rparr>)\<rparr>"
  let ?r = "\<lparr>status = 404, statusText = ''Not Found'', url = page_url, body_text = Some []\<rparr>"
  have a: "page_url \<noteq> []" by (simp add: page_url_def)
  have b: "isValidUrl ?E page_url" by (simp add: isValidUrl_def site_def url_eval)
  have c: "fetch ?E page_url = Resolves ?r" by simp
  have d: "status ?r < 200 \<or> 299 < status ?r" by simp
  show ?thesis using fetch_failed_non_2xx [OF a b c d] by (simp add: digits.simps)
qed

subsection \<open>Assembly\<close>

text \<open>
  C1, as the code has it. On a delivered page the result has no key twice, and
  \<^verbatim>\<open>additionalMeta\<close> is spread after the rule-based fields: whenever the collected
  object has a key (other than \<^verbatim>\<open>extractedAt\<close>), the result carries the
  collected value under that key, also when the scraper found a value for it; the
  rule-based value (or the final URL under \<^verbatim>\<open>url\<close>) is in the result only when
  the collected object has no such key, and then only if it is not \<^verbatim>\<open>undefined\<close>.
\<close>

theorem auxiliary_overrides_rule_based:
  assumes "delivers E u html t" and "scraper E html t = Some md"
    and "additionalMeta E (load E html) t = Some aux"
  shows "\<exists>body. POST E (Body (Some u)) = ([u], Reply 200 body) \<and>
           distinct (map fst body) \<and>
           (\<forall>k v. map_of aux k = Some v \<and> k \<noteq> ''extractedAt'' \<longrightarrow> map_of body k = Some v) \<and>
           (\<forall>k. map_of aux k = None \<and> k \<noteq> ''extractedAt'' \<longrightarrow>
                map_of body k = map_of (stringify (rule_based t md)) k)"
proof -
  let ?body = "stringify (assemble t md aux (toISOString E))"
  have "POST E (Body (Some u)) = ([u], Reply 200 ?body)" using assms by (rule POST_result)
  moreover have "distinct (map fst ?body)" by (simp add: distinct_stringify distinct_assemble)
  moreover have "\<forall>k v. map_of aux k = Some v \<and> k \<noteq> ''extractedAt'' \<longrightarrow> map_of ?body k = Some v"
    by (simp add: map_of_result [OF assms(3)])
  moreover have "\<forall>k. map_of aux k = None \<and> k \<noteq> ''extractedAt'' \<longrightarrow>
      map_of ?body k = map_of (stringify (rule_based t md)) k"
    by (simp add: map_of_result [OF assms(3)])
  ultimately show ?thesis by blast
qed

theorem auxiliary_overrides_rule_based_witness:
  "\<exists>body. POST (site [meta_tag ''name'' ''title'' ''B'']
              (md_undefined\<lparr>title := Str ''A'', author := Str ''C''\<rparr>)) (Body (Some page_url)) =
             ([page_url], Reply 200 body) \<and>
          distinct (map fst body) \<and>
          map_of body ''title'' = Some (Str ''B'') \<and>
          map_of body ''author'' = Some (Str ''C'') \<and>
          map_of body ''description'' = None"
proof -
  let ?md = "md_undefined\<lparr>title := Str ''A'', author := Str ''C''\<rparr>"
  let ?E = "site [meta_tag ''name'' ''title'' ''B''] ?md"
  let ?aux = "[(''title'', Str ''B'')]"
  have c: "additionalMeta ?E (load ?E ''<html>'') page_url = Some ?aux"
    by (simp add: post_eval)
  from auxiliary_overrides_rule_based [OF site_delivers site_scraper c]
  obtain body where b: "POST ?E (Body (Some page_url)) = ([page_url], Reply 200 body)"
    "distinct (map fst body)"
    "\<forall>k v. map_of ?aux k = Some v \<and> k \<noteq> ''extractedAt'' \<longrightarrow> map_of body k = Some v"
    "\<forall>k. map_of ?aux k = None \<and> k \<noteq> ''extractedAt'' \<longrightarrow>
       map_of body k = map_of (stringify (rule_based page_url ?md)) k"
    by blast
  from b(3) have "map_of body ''title'' = Some (Str ''B'')" by simp
  moreover from b(4) have "map_of body ''author'' = Some (Str ''C'')"
    by (simp add: stringify_def rule_based_def md_undefined_def)
  moreover from b(4) have "map_of body ''description'' = None"
    by (simp add: stringify_def rule_based_def md_undefined_def)
  ultimately show ?thesis using b(1,2) by blast
qed

text \<open>
  C1 as stated fails: the scraper found the title \<^verbatim>\<open>A\<close> and the page has
  \<^verbatim>\<open><meta name="title" content="B">\<close>; the result carries \<^verbatim>\<open>B\<close>, and the
  rule-based \<^verbatim>\<open>A\<close> is nowhere in it.
\<close>

theorem rule_based_title_shadowed_counterexample:
  "POST (site [meta_tag ''name'' ''title'' ''B''] (md_undefined\<lparr>title := Str ''A''\<rparr>))
     (Body (Some page_url)) =
   ([''https://example.com/page''],
    Reply 200 [(''url'', Str ''https://example.com/page''), (''title'', Str ''B''),
      (''extractedAt'', Str ''2024-01-01T00:00:00.000Z'')])"
  by (simp add: post_eval url_eval)

text \<open>
  C4, as the code has it. On a delivered page for which the scraper answers and no URL
  constructor throws, the reply is a 200 whose object has \<^verbatim>\<open>url\<close> and
  \<^verbatim>\<open>extractedAt\<close>. Every collected value is a non-empty string or a non-empty
  list of non-empty strings and is in the result under its key, so a collected field
  without a value is absent. Under a key that no collected tag has, the result has
  exactly what the object literal wrote there, \<^verbatim>\<open>undefined\<close> alone being left
  out: each of \<^verbatim>\<open>title\<close>, \<^verbatim>\<open>description\<close>, \<^verbatim>\<open>image\<close>,
  \<^verbatim>\<open>logo\<close>, \<^verbatim>\<open>author\<close>, \<^verbatim>\<open>date\<close> and \<^verbatim>\<open>publisher\<close> is
  absent exactly when the scraper reports \<^verbatim>\<open>undefined\<close> and is otherwise the
  scraper's value as it is, \<^verbatim>\<open>null\<close> and the empty string included.
\<close>

theorem rule_based_fields_copied:
  assumes "delivers E u html t" and "scraper E html t = Some md"
    and "additionalMeta E (load E html) t = Some aux"
  shows "\<exists>body. POST E (Body (Some u)) = ([u], Reply 200 body) \<and>
           map_of body ''url'' \<noteq> None \<and> map_of body ''extractedAt'' \<noteq> None \<and>
           (\<forall>k v. map_of aux k = Some v \<longrightarrow>
              present v \<and> (k \<noteq> ''extractedAt'' \<longrightarrow> map_of body k = Some v)) \<and>
           (\<forall>k. map_of aux k = None \<and> k \<noteq> ''extractedAt'' \<longrightarrow>
              map_of body k =
                (case map_of (rule_based t md) k of
                   None \<Rightarrow> None
                 | Some v \<Rightarrow> if v = Undefined then None else Some v)) \<and>
           (map_of aux ''title'' = None \<longrightarrow>
              map_of body ''title'' = (if title md = Undefined then None else Some (title md))) \<and>
           (map_of aux ''description'' = None \<longrightarrow>
              map_of body ''description'' =
                (if description md = Undefined then None else Some (description md))) \<and>
           (map_of aux ''image'' = None \<longrightarrow>
              map_of body ''image'' = (if image md = Undefined then None else Some (image md))) \<and>
           (map_of aux ''logo'' = None \<longrightarrow>
              map_of body ''logo'' = (if logo md = Undefined then None else Some (logo md))) \<and>
           (map_of aux ''author'' = None \<longrightarrow>
              map_of body ''author'' = (if author md = Undefined then None else Some (author md))) \<and>
           (map_of aux ''date'' = None \<longrightarrow>
              map_of body ''date'' = (if date md = Undefined then None else Some (date md))) \<and>
           (map_of aux ''publisher'' = None \<longrightarrow>
              map_of body ''publisher'' =
                (if publisher md = Undefined then None else Some (publisher md)))"
proof -
  let ?body = "stringify (assemble t md aux (toISOString E))"
  note look = map_of_result [OF assms(3), where md = md and now = "toISOString E"]
  have r: "distinct (map fst (rule_based t md))" by (simp add: rule_based_def)
  note rb = map_of_stringify [OF r]
  have post: "POST E (Body (Some u)) = ([u], Reply 200 ?body)" using assms by (rule POST_result)
  have "map_of (stringify (rule_based t md)) ''url'' = Some (Str t)"
    by (simp add: rule_based_def stringify_def)
  then have u: "map_of ?body ''url'' \<noteq> None"
    by (simp add: look split: option.splits)
  have x: "map_of ?body ''extractedAt'' \<noteq> None" by (simp add: look)
  have a: "\<forall>k v. map_of aux k = Some v \<longrightarrow>
      present v \<and> (k \<noteq> ''extractedAt'' \<longrightarrow> map_of ?body k = Some v)"
    using present_lookup [OF present_additionalMeta [OF assms(3)]] by (simp add: look)
  have n: "\<forall>k. map_of aux k = None \<and> k \<noteq> ''extractedAt'' \<longrightarrow>
      map_of ?body k =
        (case map_of (rule_based t md) k of
           None \<Rightarrow> None
         | Some v \<Rightarrow> if v = Undefined then None else Some v)"
    by (simp add: look rb)
  have f1: "map_of aux ''title'' = None \<longrightarrow>
      map_of ?body ''title'' = (if title md = Undefined then None else Some (title md))"
    by (simp add: look rb) (simp add: rule_based_def)
  have f2: "map_of aux ''description'' = None \<longrightarrow>
      map_of ?body ''description'' =
        (if description md = Undefined then None else Some (description md))"
    by (simp add: look rb) (simp add: rule_based_def)
  have f3: "map_of aux ''image'' = None \<longrightarrow>
      map_of ?body ''image'' = (if image md = Undefined then None else Some (image md))"
    by (simp add: look rb) (simp add: rule_based_def)
  have f4: "map_of aux ''logo'' = None \<longrightarrow>
      map_of ?body ''logo'' = (if logo md = Undefined then None else Some (logo md))"
    by (simp add: look rb) (simp add: rule_based_def)
  have f5: "map_of aux ''author'' = None \<longrightarrow>
      map_of ?body ''author'' = (if author md = Undefined then None else Some (author md))"
    by (simp add: look rb) (simp add: rule_based_def)
  have f6: "map_of aux ''date'' = None \<longrightarrow>
      map_of ?body ''date'' = (if date md = Undefined then None else Some (date md))"
    by (simp add: look rb) (simp add: rule_based_def)
  have f7: "map_of aux ''publisher'' = None \<longrightarrow>
      map_of ?body ''publisher'' =
        (if publisher md = Undefined then None else Some (publisher md))"
    by (simp add: look rb) (simp add: rule_based_def)
  from post u x a n f1 f2 f3 f4 f5 f6 f7 show ?thesis by (intro exI [of _ ?body] conjI)
qed

theorem rule_based_fields_copied_witness:
  "\<exists>body. POST (site [\<lparr>tag = ''html'', attribs = [(''lang'', ''en'')]\<rparr>,
                      meta_tag ''name'' ''keywords'' []]
                  \<lparr>title = Str ''T'', description = Null, image = Undefined, logo = Undefined,
                     author = Str [], date = Undefined, publisher = Undefined\<rparr>)
             (Body (Some page_url)) = ([page_url], Reply 200 body) \<and>
          map_of body ''title'' = Some (Str ''T'') \<and>
          map_of body ''description'' = Some Null \<and>
          map_of body ''author'' = Some (Str []) \<and>
          map_of body ''image'' = None \<and>
          map_of body ''language'' = Some (Str ''en'') \<and>
          map_of body ''keywords'' = None"
proof -
  let ?md = "\<lparr>title = Str ''T'', description = Null, image = Undefined, logo = Undefined,
               author = Str [], date = Undefined, publisher = Undefined\<rparr>"
  let ?E = "site [\<lparr>tag = ''html'', attribs = [(''lang'', ''en'')]\<rparr>,
                  meta_tag ''name'' ''keywords'' []] ?md"
  let ?aux = "[(''language'', Str ''en'')]"
  have c: "additionalMeta ?E (load ?E ''<html>'') page_url = Some ?aux"
    by (simp add: post_eval startsWith_def)
  from rule_based_fields_copied [OF site_delivers site_scraper c] show ?thesis
  proof (elim exE conjE)
    fix body
    assume p: "POST ?E (Body (Some page_url)) = ([page_url], Reply 200 body)"
    and a: "\<forall>k v. map_of ?aux k = Some v \<longrightarrow>
              present v \<and> (k \<noteq> ''extractedAt'' \<longrightarrow> map_of body k = Some v)"
    and n: "\<forall>k. map_of ?aux k = None \<and> k \<noteq> ''extractedAt'' \<longrightarrow>
              map_of body k =
                (case map_of (rule_based page_url ?md) k of
                   None \<Rightarrow> None
                 | Some v \<Rightarrow> if v = Undefined then None else Some v)"
    and f1: "map_of ?aux ''title'' = None \<longrightarrow>
              map_of body ''title'' = (if title ?md = Undefined then None else Some (title ?md))"
    and f2: "map_of ?aux ''description'' = None \<longrightarrow>
              map_of body ''description'' =
                (if description ?md = Undefined then None else Some (description ?md))"
    and f3: "map_of ?aux ''image'' = None \<longrightarrow>
              map_of body ''image'' = (if image ?md = Undefined then None else Some (image ?md))"
    and f5: "map_of ?aux ''author'' = None \<longrightarrow>
              map_of body ''author'' = (if author ?md = Undefined then None else Some (author ?md))"
    from f1 have 1: "map_of body ''title'' = Some (Str ''T'')" by simp
    from f2 have 2: "map_of body ''description'' = Some Null" by simp
    from f5 have 3: "map_of body ''author'' = Some (Str [])" by simp
    from f3 have 4: "map_of body ''image'' = None" by simp
    from a have 5: "map_of body ''language'' = Some (Str ''en'')" by simp
    from n have 6: "map_of body ''keywords'' = None" by (simp add: rule_based_def)
    from p 1 2 3 4 5 6 show ?thesis by (intro exI [of _ body] conjI)
  qed
qed

text \<open>
  C4 as stated fails: when the scraper reports the fields it did not find as
  \<^verbatim>\<open>null\<close>, a page without any tag gives a result in which these fields are
  present with the value \<^verbatim>\<open>null\<close>.
\<close>

theorem null_fields_kept_counterexample:
  "POST (site [] md_null) (Body (Some page_url)) =
   ([''https://example.com/page''],
    Reply 200 [(''url'', Str ''https://example.com/page''), (''title'', Null),
      (''description'', Null), (''image'', Null), (''logo'', Null), (''author'', Null),
      (''date'', Null), (''publisher'', Null),
      (''extractedAt'', Str ''2024-01-01T00:00:00.000Z'')])"
  by (simp add: post_eval url_eval)

text \<open>
  C10. Whenever the handler replies with a 200, the \<^verbatim>\<open>extractedAt\<close> of the result
  is the timestamp taken at assembly, whatever the document contains: it is written
  after the spread. The second part is the contrast on one page: a meta tag named
  \<^verbatim>\<open>extractedAt\<close> changes nothing, a meta tag named \<^verbatim>\<open>url\<close> replaces the
  final URL.
\<close>

theorem extractedAt_is_the_timestamp:
  "(POST E req = (log, Reply 200 body) \<longrightarrow>
      map_of body ''extractedAt'' = Some (Str (toISOString E))) \<and>
   POST (site [meta_tag ''name'' ''extractedAt'' ''1999'', meta_tag ''name'' ''url'' ''X'']
           md_undefined) (Body (Some page_url)) =
     ([page_url], Reply 200 [(''url'', Str ''X''),
        (''extractedAt'', Str ''2024-01-01T00:00:00.000Z'')])"
proof
  show "POST E req = (log, Reply 200 body) \<longrightarrow>
      map_of body ''extractedAt'' = Some (Str (toISOString E))"
  proof
    assume "POST E req = (log, Reply 200 body)"
    then obtain html t r where r: "extraction E html t = Some r" "body = stringify r"
      using POST_success by blast
    then obtain md aux where "additionalMeta E (load E html) t = Some aux"
      "r = assemble t md aux (toISOString E)"
      by (auto simp: extraction_Some)
    with r show "map_of body ''extractedAt'' = Some (Str (toISOString E))"
      by (simp add: map_of_result)
  qed
next
  show "POST (site [meta_tag ''name'' ''extractedAt'' ''1999'', meta_tag ''name'' ''url'' ''X'']
           md_undefined) (Body (Some page_url)) =
     ([page_url], Reply 200 [(''url'', Str ''X''),
        (''extractedAt'', Str ''2024-01-01T00:00:00.000Z'')])"
    by (simp add: post_eval url_eval)
qed

theorem extractedAt_is_the_timestamp_witness:
  "POST (site [meta_tag ''property'' ''og:type'' ''article''] md_undefined) (Body (Some page_url)) =
     ([page_url], Reply 200 [(''url'', Str page_url), (''og:type'', Str ''article''),
        (''extractedAt'', Str ''2024-01-01T00:00:00.000Z'')]) \<and>
   map_of [(''url'', Str page_url), (''og:type'', Str ''article''),
           (''extractedAt'', Str ''2024-01-01T00:00:00.000Z'')] ''extractedAt'' =
     Some (Str (toISOString (site [meta_tag ''property'' ''og:type'' ''article''] md_undefined)))"
proof -
  let ?E = "site [meta_tag ''property'' ''og:type'' ''article''] md_undefined"
  let ?body = "[(''url'', Str page_url), (''og:type'', Str ''article''),
           (''extractedAt'', Str ''2024-01-01T00:00:00.000Z'')]"
  have p: "POST ?E (Body (Some page_url)) = ([page_url], Reply 200 ?body)"
    by (simp add: post_eval url_eval)
  from extractedAt_is_the_timestamp [of ?E "Body (Some page_url)" "[page_url]" ?body] p
  show ?thesis by blast
qed

text \<open>
  C9. Two runs of the extraction stage on the same HTML and the same final URL, in
  environments that differ in the clock only, both fail or both succeed, and then the
  two results are the same object up to the value of \<^verbatim>\<open>extractedAt\<close>: the first is
  the second with its \<^verbatim>\<open>extractedAt\<close> rewritten, and without that property they
  are equal. (That the scraper, the parser and the URL constructor are functions of
  their arguments is how the environment models them.)
\<close>

theorem extraction_deterministic:
  "extraction (E\<lparr>toISOString := c1\<rparr>) html t =
     map_option (AList.update ''extractedAt'' (Str c1))
       (extraction (E\<lparr>toISOString := c2\<rparr>) html t) \<and>
   map_option (filter (\<lambda>kv. fst kv \<noteq> ''extractedAt''))
       (extraction (E\<lparr>toISOString := c1\<rparr>) html t) =
     map_option (filter (\<lambda>kv. fst kv \<noteq> ''extractedAt''))
       (extraction (E\<lparr>toISOString := c2\<rparr>) html t)"
  by (simp add: extraction_clock option.map_comp comp_def filter_update_key)

theorem extraction_deterministic_witness:
  "map_option (filter (\<lambda>kv. fst kv \<noteq> ''extractedAt''))
       (extraction ((site [meta_tag ''name'' ''author'' ''N''] md_undefined)
          \<lparr>toISOString := ''2024-01-01T00:00:00.000Z''\<rparr>) ''<html>'' page_url) =
     map_option (filter (\<lambda>kv. fst kv \<noteq> ''extractedAt''))
       (extraction ((site [meta_tag ''name'' ''author'' ''N''] md_undefined)
          \<lparr>toISOString := ''2025-06-30T12:00:00.000Z''\<rparr>) ''<html>'' page_url)"
  using extraction_deterministic
    [where E = "site [meta_tag ''name'' ''author'' ''N''] md_undefined"
       and ?c1.0 = "''2024-01-01T00:00:00.000Z''" and ?c2.0 = "''2025-06-30T12:00:00.000Z''"
       and html = "''<html>''" and t = page_url]
  by (rule conjunct2)

subsection \<open>Favicon and feeds\<close>

text \<open>
  What the handler writes under \<^verbatim>\<open>favicon\<close>. The candidate is the
  \<^verbatim>\<open>href\<close> of the first \<^verbatim>\<open>link[rel="icon"]\<close> if that is non-empty, else
  that of the first \<^verbatim>\<open>link[rel="shortcut icon"]\<close> if non-empty, else that of the
  first \<^verbatim>\<open>link[rel="apple-touch-icon"]\<close>; a non-empty candidate goes through
  \<^verbatim>\<open>h.startsWith("http") ? h : new URL(h, targetUrl).href\<close>. The example is the
  one of the specification, with the three kinds of link in reverse order.
\<close>

lemma favicon_value:
  assumes "delivers E u html t" and "scraper E html t = Some md"
    and "additionalMeta E (load E html) t = Some aux"
    and "icon = first_attr (filter (sel_link_rel ''icon'') (load E html)) ''href''"
    and "shortcut = first_attr (filter (sel_link_rel ''shortcut icon'') (load E html)) ''href''"
    and "apple = first_attr (filter (sel_link_rel ''apple-touch-icon'') (load E html)) ''href''"
    and "(if truthy icon then icon else if truthy shortcut then shortcut else apple) = Some h"
    and "h \<noteq> []"
  shows "\<exists>body f. POST E (Body (Some u)) = ([u], Reply 200 body) \<and>
           map_of body ''favicon'' = Some (Str f) \<and>
           (if startsWith h ''http'' then Some h else map_option href (URL_new E h (Some t))) = Some f"
proof -
  let ?body = "stringify (assemble t md aux (toISOString E))"
  have post: "POST E (Body (Some u)) = ([u], Reply 200 ?body)"
    using assms(1-3) by (rule POST_result)
  have cand: "favicon_candidate (load E html) = Some h"
    using assms(7) unfolding assms(4) assms(5) assms(6) favicon_candidate_def or_else_def .
  then have tr: "truthy (favicon_candidate (load E html))"
    using assms(8) by (simp add: truthy_def)
  from aux_lookup [OF assms(3)] cand tr obtain f where
    f: "resolve E t h = Some f" "map_of aux ''favicon'' = Some (Str f)"
    by auto
  have "map_of ?body ''favicon'' = Some (Str f)"
    using f(2) by (simp add: map_of_result [OF assms(3)])
  with post f(1) show ?thesis by (auto simp: resolve_def)
qed

lemma favicon_example:
  "\<exists>body. POST (site [link_tag ''rel'' ''apple-touch-icon'' ''/apple.png'',
                      link_tag ''rel'' ''shortcut icon'' ''/old.ico'',
                      link_tag ''rel'' ''icon'' ''/favicon.ico''] md_undefined)
             (Body (Some ''https://example.com/page'')) =
             ([''https://example.com/page''], Reply 200 body) \<and>
          map_of body ''favicon'' = Some (Str ''https://example.com/favicon.ico'')"
proof -
  let ?doc = "[link_tag ''rel'' ''apple-touch-icon'' ''/apple.png'',
               link_tag ''rel'' ''shortcut icon'' ''/old.ico'',
               link_tag ''rel'' ''icon'' ''/favicon.ico'']"
  let ?E = "site ?doc md_undefined"
  have c: "additionalMeta ?E (load ?E ''<html>'') page_url =
      Some [(''favicon'', Str ''https://example.com/favicon.ico'')]"
    by (simp add: post_eval url_eval)
  have i: "first_attr (filter (sel_link_rel ''icon'') (load ?E ''<html>'')) ''href'' =
      Some ''/favicon.ico''"
    by (simp add: post_eval toLower_def)
  have h: "(if truthy (Some ''/favicon.ico'') then Some ''/favicon.ico''
            else if truthy (first_attr (filter (sel_link_rel ''shortcut icon'')
                     (load ?E ''<html>'')) ''href'')
                 then first_attr (filter (sel_link_rel ''shortcut icon'')
                     (load ?E ''<html>'')) ''href''
                 else first_attr (filter (sel_link_rel ''apple-touch-icon'')
                     (load ?E ''<html>'')) ''href'') = Some ''/favicon.ico''"
    by (simp add: truthy_def)
  have n: "''/favicon.ico'' \<noteq> []" by simp
  from favicon_value [OF site_delivers site_scraper c i [symmetric] refl refl h n]
  obtain body f where b: "POST ?E (Body (Some page_url)) = ([page_url], Reply 200 body)"
    "map_of body ''favicon'' = Some (Str f)"
    "(if startsWith ''/favicon.ico'' ''http'' then Some ''/favicon.ico''
      else map_option href (URL_new ?E ''/favicon.ico'' (Some page_url))) = Some f"
    by blast
  from b(3) have "f = ''https://example.com/favicon.ico''"
    by (simp add: site_def url_eval)
  with b(1,2) show ?thesis by (auto simp: page_url_def)
qed

text \<open>
  C6. The favicon is taken in the priority order of the claim, and a relative
  \<^verbatim>\<open>href\<close> is to be resolved against the final URL. The handler does resolve
  \<^verbatim>\<open>icons/favicon.ico\<close>, but its test for an \<^verbatim>\<open>href\<close> that is already
  absolute is \<^verbatim>\<open>startsWith("http")\<close>: the relative reference
  \<^verbatim>\<open>httpd/favicon.ico\<close> (it has no scheme, and resolves to
  \<^verbatim>\<open>https://example.com/httpd/favicon.ico\<close>) passes that test and is written
  to the result unresolved.
\<close>

theorem relative_favicon_kept_unresolved:
  "POST (site [link_tag ''rel'' ''icon'' ''httpd/favicon.ico''] md_undefined)
     (Body (Some page_url)) =
   ([''https://example.com/page''],
    Reply 200 [(''url'', Str ''https://example.com/page''),
      (''favicon'', Str ''httpd/favicon.ico''),
      (''extractedAt'', Str ''2024-01-01T00:00:00.000Z'')]) \<and>
   URL_parse ''httpd/favicon.ico'' None = None \<and>
   map_option href (URL_parse ''httpd/favicon.ico'' (Some page_url)) =
     Some ''https://example.com/httpd/favicon.ico'' \<and>
   POST (site [link_tag ''rel'' ''icon'' ''icons/favicon.ico''] md_undefined)
     (Body (Some page_url)) =
   ([''https://example.com/page''],
    Reply 200 [(''url'', Str ''https://example.com/page''),
      (''favicon'', Str ''https://example.com/icons/favicon.ico''),
      (''extractedAt'', Str ''2024-01-01T00:00:00.000Z'')])"
  by (simp add: post_eval url_eval)

text \<open>
  What the handler writes under \<^verbatim>\<open>feeds\<close>. Let \<open>hs\<close> be the non-empty
  \<^verbatim>\<open>href\<close> values of the \<^verbatim>\<open>link\<close> elements of type
  \<^verbatim>\<open>application/rss+xml\<close> or \<^verbatim>\<open>application/atom+xml\<close>, in document order,
  repetitions kept. When the request succeeds and \<open>hs\<close> is not empty,
  \<^verbatim>\<open>feeds\<close> is a list of the same length whose entry for \<open>h\<close> is
  \<^verbatim>\<open>h.startsWith("http") ? h : new URL(h, targetUrl).href\<close>. When \<open>hs\<close> is empty
  the handler writes no \<^verbatim>\<open>feeds\<close> (the key is then what a meta tag of that name
  gave, if any). The example has a repeated feed.
\<close>

lemma feeds_value:
  assumes "delivers E u html t" and "scraper E html t = Some md"
    and "additionalMeta E (load E html) t = Some aux"
    and "hs = hrefs (filter sel_feed (load E html))"
  shows "\<exists>body. POST E (Body (Some u)) = ([u], Reply 200 body) \<and>
           (if hs = [] then map_of body ''feeds'' = map_of (meta_sweeps (load E html)) ''feeds''
            else (\<exists>feeds. map_of body ''feeds'' = Some (StrList feeds) \<and>
                   map Some feeds =
                     map (\<lambda>h. if startsWith h ''http'' then Some h
                              else map_option href (URL_new E h (Some t))) hs))"
proof -
  let ?body = "stringify (assemble t md aux (toISOString E))"
  have post: "POST E (Body (Some u)) = ([u], Reply 200 ?body)"
    using assms(1-3) by (rule POST_result)
  from aux_lookup [OF assms(3)] assms(4) obtain feeds where
    feeds: "map Some feeds = map (resolve E t) hs" and
    look: "map_of aux ''feeds'' =
      (if feeds \<noteq> [] then Some (StrList feeds) else map_of (meta_sweeps (load E html)) ''feeds'')"
    by auto
  from feeds have len: "length feeds = length hs" by (metis length_map)
  have res: "resolve E t = (\<lambda>h. if startsWith h ''http'' then Some h
                              else map_option href (URL_new E h (Some t)))"
    by (rule ext) (simp add: resolve_def)
  have sweeps: "map_of (meta_sweeps (load E html)) ''feeds'' = None \<Longrightarrow>
      map_of (stringify (rule_based t md)) ''feeds'' = None"
    by (simp add: stringify_def rule_based_def)
  show ?thesis
  proof (cases "hs = []")
    case True
    with len have "feeds = []" by simp
    with look have "map_of aux ''feeds'' = map_of (meta_sweeps (load E html)) ''feeds''" by simp
    then have "map_of ?body ''feeds'' = map_of (meta_sweeps (load E html)) ''feeds''"
      using sweeps by (simp add: map_of_result [OF assms(3)] split: option.splits)
    with post True show ?thesis by simp
  next
    case False
    with len have "feeds \<noteq> []" by auto
    with look have "map_of ?body ''feeds'' = Some (StrList feeds)"
      by (simp add: map_of_result [OF assms(3)])
    with post False feeds show ?thesis unfolding res by auto
  qed
qed

lemma feeds_example:
  "\<exists>body. POST (site [link_tag ''type'' ''application/rss+xml'' ''/a.xml'',
                      link_tag ''type'' ''application/atom+xml'' ''/b.xml'',
                      link_tag ''type'' ''application/rss+xml'' ''/a.xml''] md_undefined)
             (Body (Some ''https://example.com/page'')) =
             ([''https://example.com/page''], Reply 200 body) \<and>
          map_of body ''feeds'' =
            Some (StrList [''https://example.com/a.xml'', ''https://example.com/b.xml'',
                           ''https://example.com/a.xml''])"
proof -
  let ?doc = "[link_tag ''type'' ''application/rss+xml'' ''/a.xml'',
               link_tag ''type'' ''application/atom+xml'' ''/b.xml'',
               link_tag ''type'' ''application/rss+xml'' ''/a.xml'']"
  let ?E = "site ?doc md_undefined"
  let ?hs = "[''/a.xml'', ''/b.xml'', ''/a.xml'']"
  have c: "additionalMeta ?E (load ?E ''<html>'') page_url =
      Some [(''feeds'', StrList [''https://example.com/a.xml'', ''https://example.com/b.xml'',
                           ''https://example.com/a.xml''])]"
    by (simp add: post_eval url_eval)
  have h: "?hs = hrefs (filter sel_feed (load ?E ''<html>''))"
    by (simp add: hrefs_def post_eval toLower_def)
  from feeds_value [OF site_delivers site_scraper c h]
  obtain body feeds where b: "POST ?E (Body (Some page_url)) = ([page_url], Reply 200 body)"
    "map_of body ''feeds'' = Some (StrList feeds)"
    "map Some feeds =
       map (\<lambda>h. if startsWith h ''http'' then Some h
                else map_option href (URL_new ?E h (Some page_url))) ?hs"
    by auto
  have ev: "map (\<lambda>h. if startsWith h ''http'' then Some h
                else map_option href (URL_new ?E h (Some page_url))) ?hs =
        map Some [''https://example.com/a.xml'', ''https://example.com/b.xml'',
                  ''https://example.com/a.xml'']"
    by (simp add: site_def url_eval)
  have "map Some feeds = map Some [''https://example.com/a.xml'', ''https://example.com/b.xml'',
                  ''https://example.com/a.xml'']"
    by (rule trans [OF b(3) ev])
  then have "feeds = [''https://example.com/a.xml'', ''https://example.com/b.xml'',
                  ''https://example.com/a.xml'']"
    by (rule map_injective) simp
  with b(1,2) show ?thesis by (auto simp: page_url_def)
qed

text \<open>
  C7. The feeds are listed in document order with their repetitions, and every entry is
  to be absolute. The handler does resolve \<^verbatim>\<open>feeds/rss.xml\<close>, but its test for
  an \<^verbatim>\<open>href\<close> that is already absolute is \<^verbatim>\<open>startsWith("http")\<close>: the
  relative reference \<^verbatim>\<open>http-feed.xml\<close> (it has no scheme, and resolves to
  \<^verbatim>\<open>https://example.com/http-feed.xml\<close>) passes that test and is pushed
  unresolved, so the result has a relative feed value. This is the defect of C6, in
  the feed loop.
\<close>

theorem relative_feed_kept_unresolved:
  "POST (site [link_tag ''type'' ''application/rss+xml'' ''http-feed.xml''] md_undefined)
     (Body (Some page_url)) =
   ([''https://example.com/page''],
    Reply 200 [(''url'', Str ''https://example.com/page''),
      (''feeds'', StrList [''http-feed.xml'']),
      (''extractedAt'', Str ''2024-01-01T00:00:00.000Z'')]) \<and>
   URL_parse ''http-feed.xml'' None = None \<and>
   map_option href (URL_parse ''http-feed.xml'' (Some page_url)) =
     Some ''https://example.com/http-feed.xml'' \<and>
   POST (site [link_tag ''type'' ''application/rss+xml'' ''feeds/rss.xml''] md_undefined)
     (Body (Some page_url)) =
   ([''https://example.com/page''],
    Reply 200 [(''url'', Str ''https://example.com/page''),
      (''feeds'', StrList [''https://example.com/feeds/rss.xml'']),
      (''extractedAt'', Str ''2024-01-01T00:00:00.000Z'')])"
  by (simp add: post_eval url_eval)

text \<open>
  C2, as the code has it. Nothing drops a candidate. On a delivered page, when the
  favicon candidate, or the \<^verbatim>\<open>href\<close> of one of the feed links, is one that the
  handler gives to the URL constructor (it does not start with \<^verbatim>\<open>http\<close>) and
  the constructor throws on it, the exception reaches the handler's \<^verbatim>\<open>catch\<close>
  and the reply is the 500 \<^verbatim>\<open>Failed to extract metadata\<close>. (Image candidates are
  resolved inside the scraper, not by this code.)
\<close>

theorem unresolvable_candidate_fails_request:
  assumes "delivers E u html t"
    and "(\<exists>h. favicon_candidate (load E html) = Some h \<and> h \<noteq> [] \<and>
              \<not> startsWith h ''http'' \<and> URL_new E h (Some t) = None) \<or>
         (\<exists>h\<in>set (hrefs (filter sel_feed (load E html))).
              \<not> startsWith h ''http'' \<and> URL_new E h (Some t) = None)"
  shows "POST E (Body (Some u)) = ([u], Reply 500 [(''error'', Str ''Failed to extract metadata'')])"
proof -
  from assms(2) have "(\<exists>h. favicon_candidate (load E html) = Some h \<and> h \<noteq> [] \<and>
              resolve E t h = None) \<or>
         (\<exists>h\<in>set (hrefs (filter sel_feed (load E html))). resolve E t h = None)"
    by (auto simp: resolve_def)
  then have "additionalMeta E (load E html) t = None" by (rule additionalMeta_throws)
  then have "extraction E html t = None" by (simp add: extraction_def split: option.splits)
  with assms(1) show ?thesis
    by (simp add: POST_delivers internal_error_def error_reply_def)
qed

theorem unresolvable_candidate_fails_request_witness:
  "POST (site [link_tag ''type'' ''application/atom+xml'' ''/atom.xml'',
               link_tag ''type'' ''application/rss+xml'' ''//''] md_undefined)
     (Body (Some page_url)) =
   ([page_url], Reply 500 [(''error'', Str ''Failed to extract metadata'')])"
proof -
  let ?doc = "[link_tag ''type'' ''application/atom+xml'' ''/atom.xml'',
               link_tag ''type'' ''application/rss+xml'' ''//'']"
  let ?E = "site ?doc md_undefined"
  have "hrefs (filter sel_feed (load ?E ''<html>'')) = [''/atom.xml'', ''//'']"
    by (simp add: hrefs_def post_eval toLower_def)
  moreover have "\<not> startsWith ''//'' ''http'' \<and> URL_new ?E ''//'' (Some page_url) = None"
    by (simp add: site_def url_eval)
  ultimately have "(\<exists>h. favicon_candidate (load ?E ''<html>'') = Some h \<and> h \<noteq> [] \<and>
              \<not> startsWith h ''http'' \<and> URL_new ?E h (Some page_url) = None) \<or>
         (\<exists>h\<in>set (hrefs (filter sel_feed (load ?E ''<html>''))).
              \<not> startsWith h ''http'' \<and> URL_new ?E h (Some page_url) = None)"
    by simp
  then show ?thesis by (rule unresolvable_candidate_fails_request [OF site_delivers])
qed

text \<open>
  C2 as stated fails: \<^verbatim>\<open>//\<close> cannot be resolved against
  \<^verbatim>\<open>https://example.com/page\<close> (the host is empty), and a page whose icon link has
  this \<^verbatim>\<open>href\<close> gets the error reply 500, not a result without favicon.
\<close>

theorem malformed_favicon_fails_request_counterexample:
  "URL_parse ''//'' (Some ''https://example.com/page'') = None \<and>
   POST (site [link_tag ''rel'' ''icon'' ''//''] md_undefined)
     (Body (Some ''https://example.com/page'')) =
   ([''https://example.com/page''], Reply 500 [(''error'', Str ''Failed to extract metadata'')])"
  by (simp add: post_eval url_eval)

subsection \<open>Repeated meta keys\<close>

text \<open>
  C8, as the code has it, on the final mapping \<^verbatim>\<open>additionalMeta\<close>. The keys
  \<^verbatim>\<open>__proto__\<close> and the empty key are never recorded. The meta tags are collected
  in three sweeps, each last-write-wins in document order among the tags it visits that
  have a non-empty key and a non-empty content, and a later sweep overwrites an earlier
  one. For a key \<open>k\<close> that the later steps do not write, the recorded value is therefore
  the content of the last \<^verbatim>\<open>meta[name=k]\<close> with a content, wherever the
  \<^verbatim>\<open>meta[property=k]\<close> tags stand, and the content of the last
  \<^verbatim>\<open>meta[property=k]\<close> of the Open Graph sweep only if no named tag brings one;
  when the key is brought by tags of one kind only, this is last-write-wins over the
  whole document. The keys \<^verbatim>\<open>canonical\<close>, \<^verbatim>\<open>language\<close>,
  \<^verbatim>\<open>favicon\<close> and \<^verbatim>\<open>feeds\<close> hold the canonical link, the page language,
  the favicon and the feeds whenever the document has them, whatever meta tags of these
  names say.
\<close>

theorem auxiliary_mapping_last_write_wins:
  assumes "additionalMeta E doc t = Some aux"
  shows "map_of aux ''__proto__'' = None \<and> map_of aux [] = None \<and>
         (k \<noteq> [] \<and> k \<noteq> ''__proto__'' \<and> \<not> written_after_sweeps doc k \<longrightarrow>
            map_of aux k =
              (case last_opt (occurrences ''name'' k (filter sel_meta_name doc)) of
                 Some c \<Rightarrow> Some (Str c)
               | None \<Rightarrow> map_option Str (last_opt (occurrences ''property'' k (filter sel_og doc)))) \<and>
            (occurrences ''name'' k (filter sel_meta_name doc) = [] \<or>
             occurrences ''property'' k (filter sel_og doc) = [] \<longrightarrow>
               map_of aux k = last_write_wins doc k)) \<and>
         (\<forall>h. first_attr (filter (sel_link_rel ''canonical'') doc) ''href'' = Some h \<and> h \<noteq> [] \<longrightarrow>
              map_of aux ''canonical'' = Some (Str h)) \<and>
         (\<forall>h. lang_candidate doc = Some h \<and> h \<noteq> [] \<longrightarrow>
              map_of aux ''language'' = Some (Str h)) \<and>
         (\<forall>h. favicon_candidate doc = Some h \<and> h \<noteq> [] \<longrightarrow>
              map_of aux ''favicon'' = map_option Str (resolve E t h)) \<and>
         (hrefs (filter sel_feed doc) \<noteq> [] \<longrightarrow>
            (\<exists>feeds. map_of aux ''feeds'' = Some (StrList feeds) \<and>
               map Some feeds = map (resolve E t) (hrefs (filter sel_feed doc))))"
proof -
  let ?fav = "favicon_candidate doc"
  let ?canon = "first_attr (filter (sel_link_rel ''canonical'') doc) ''href''"
  let ?lang = "lang_candidate doc"
  let ?hs = "hrefs (filter sel_feed doc)"
  from aux_lookup_key [OF assms] obtain f feeds where
    f: "(if truthy ?fav then resolve E t (the ?fav) else Some []) = Some f" and
    feeds: "map Some feeds = map (resolve E t) ?hs" and
    look: "\<And>k. map_of aux k =
             (if k = ''feeds'' \<and> feeds \<noteq> [] then Some (StrList feeds)
              else if k = ''language'' \<and> truthy ?lang then Some (Str (the ?lang))
              else if k = ''favicon'' \<and> truthy ?fav then Some (Str f)
              else if k = ''canonical'' \<and> truthy ?canon then Some (Str (the ?canon))
              else map_of (meta_sweeps doc) k)"
    by blast
  from feeds have "length feeds = length ?hs" by (metis length_map)
  then have fe: "feeds \<noteq> [] \<longleftrightarrow> ?hs \<noteq> []" by auto
  have p: "map_of aux ''__proto__'' = None" by (simp add: look meta_sweeps_proto)
  have e: "map_of aux [] = None" by (simp add: look meta_sweeps_empty_key)
  have s: "map_of aux k = map_of (meta_sweeps doc) k" if "\<not> written_after_sweeps doc k"
    using that by (auto simp: look fe written_after_sweeps_def)
  have m: "k \<noteq> [] \<and> k \<noteq> ''__proto__'' \<and> \<not> written_after_sweeps doc k \<longrightarrow>
            map_of aux k =
              (case last_opt (occurrences ''name'' k (filter sel_meta_name doc)) of
                 Some c \<Rightarrow> Some (Str c)
               | None \<Rightarrow> map_option Str (last_opt (occurrences ''property'' k (filter sel_og doc)))) \<and>
            (occurrences ''name'' k (filter sel_meta_name doc) = [] \<or>
             occurrences ''property'' k (filter sel_og doc) = [] \<longrightarrow>
               map_of aux k = last_write_wins doc k)"
  proof
    assume a: "k \<noteq> [] \<and> k \<noteq> ''__proto__'' \<and> \<not> written_after_sweeps doc k"
    then have eq: "map_of aux k = map_of (meta_sweeps doc) k" using s by blast
    from a have "k \<noteq> []" and "k \<noteq> ''__proto__''" by simp_all
    then show "map_of aux k =
              (case last_opt (occurrences ''name'' k (filter sel_meta_name doc)) of
                 Some c \<Rightarrow> Some (Str c)
               | None \<Rightarrow> map_option Str (last_opt (occurrences ''property'' k (filter sel_og doc)))) \<and>
            (occurrences ''name'' k (filter sel_meta_name doc) = [] \<or>
             occurrences ''property'' k (filter sel_og doc) = [] \<longrightarrow>
               map_of aux k = last_write_wins doc k)"
      unfolding eq by (rule meta_sweeps_lookup)
  qed
  have c: "\<forall>h. ?canon = Some h \<and> h \<noteq> [] \<longrightarrow> map_of aux ''canonical'' = Some (Str h)"
    by (simp add: look truthy_def)
  have l: "\<forall>h. ?lang = Some h \<and> h \<noteq> [] \<longrightarrow> map_of aux ''language'' = Some (Str h)"
    by (simp add: look truthy_def)
  have v: "\<forall>h. ?fav = Some h \<and> h \<noteq> [] \<longrightarrow> map_of aux ''favicon'' = map_option Str (resolve E t h)"
    using f by (auto simp: look truthy_def)
  have d: "?hs \<noteq> [] \<longrightarrow>
      (\<exists>feeds. map_of aux ''feeds'' = Some (StrList feeds) \<and> map Some feeds = map (resolve E t) ?hs)"
    using feeds fe by (auto simp: look)
  from p e m c l v d show ?thesis by blast
qed

theorem auxiliary_mapping_last_write_wins_witness:
  "map_of [(''og:type'', Str ''article''), (''language'', Str ''en''),
           (''description'', Str ''second'')] ''__proto__'' = None \<and>
   map_of [(''og:type'', Str ''article''), (''language'', Str ''en''),
           (''description'', Str ''second'')] ''description'' = Some (Str ''second'') \<and>
   last_write_wins [\<lparr>tag = ''html'', attribs = [(''lang'', ''en'')]\<rparr>,
       meta_tag ''name'' ''language'' ''de'',
       meta_tag ''name'' ''description'' ''first'',
       meta_tag ''name'' ''__proto__'' ''x'',
       meta_tag ''property'' ''og:type'' ''article'',
       meta_tag ''name'' ''description'' ''second''] ''description'' = Some (Str ''second'') \<and>
   map_of [(''og:type'', Str ''article''), (''language'', Str ''en''),
           (''description'', Str ''second'')] ''language'' = Some (Str ''en'')"
proof -
  let ?doc = "[\<lparr>tag = ''html'', attribs = [(''lang'', ''en'')]\<rparr>,
       meta_tag ''name'' ''language'' ''de'',
       meta_tag ''name'' ''description'' ''first'',
       meta_tag ''name'' ''__proto__'' ''x'',
       meta_tag ''property'' ''og:type'' ''article'',
       meta_tag ''name'' ''description'' ''second'']"
  let ?E = "site ?doc md_undefined"
  let ?aux = "[(''og:type'', Str ''article''), (''language'', Str ''en''),
           (''description'', Str ''second'')]"
  have a: "additionalMeta ?E ?doc page_url = Some ?aux"
    by (simp add: post_eval startsWith_def)
  have w: "\<not> written_after_sweeps ?doc ''description''"
    by (simp add: written_after_sweeps_def)
  have n: "occurrences ''name'' ''description'' (filter sel_meta_name ?doc) = [''first'', ''second'']"
    by (simp add: occurrences_def content_list_def sel_meta_name_def attr_def meta_tag_def)
  have o: "occurrences ''property'' ''description'' (filter sel_og ?doc) = []"
    by (simp add: occurrences_def content_list_def sel_og_def attr_prefix_def attr_def
        meta_tag_def startsWith_def)
  have lc: "lang_candidate ?doc = Some ''en''"
    by (simp add: lang_candidate_def or_else_def truthy_def first_attr_def sel_html_def attr_def
        meta_tag_def)
  note c = auxiliary_mapping_last_write_wins [OF a, of "''description''"]
  from c have 1: "map_of ?aux ''__proto__'' = None" by (rule conjunct1)
  have hyp: "''description'' \<noteq> [] \<and> ''description'' \<noteq> ''__proto__'' \<and>
      \<not> written_after_sweeps ?doc ''description''"
    using w by simp
  note m = mp [OF c [THEN conjunct2, THEN conjunct2, THEN conjunct1] hyp]
  have 2: "map_of ?aux ''description'' = Some (Str ''second'')"
    using m [THEN conjunct1] unfolding n by (simp add: last_opt_def)
  have 3: "map_of ?aux ''description'' = last_write_wins ?doc ''description''"
    by (rule mp [OF m [THEN conjunct2] disjI2 [OF o]])
  note l = c [THEN conjunct2, THEN conjunct2, THEN conjunct2, THEN conjunct2, THEN conjunct1]
  have 4: "map_of ?aux ''language'' = Some (Str ''en'')"
    using l lc by simp
  have 5: "last_write_wins ?doc ''description'' = Some (Str ''second'')"
    by (rule trans [OF 3 [symmetric] 2])
  from 1 2 5 4 show ?thesis by (intro conjI)
qed

text \<open>
  C8 as stated fails: the key \<^verbatim>\<open>og:title\<close> appears twice, first in a
  \<^verbatim>\<open>name\<close> attribute with the content \<^verbatim>\<open>A\<close>, then in a \<^verbatim>\<open>property\<close>
  attribute with the content \<^verbatim>\<open>B\<close>. The occurrence that is last in document order
  brings \<^verbatim>\<open>B\<close>; the value recorded in \<^verbatim>\<open>additionalMeta\<close> is \<^verbatim>\<open>A\<close>,
  because the sweep over the named tags runs after the Open Graph sweep.
\<close>

theorem document_order_counterexample:
  "additionalMeta (site [meta_tag ''name'' ''og:title'' ''A'',
                         meta_tag ''property'' ''og:title'' ''B''] md_undefined)
     [meta_tag ''name'' ''og:title'' ''A'', meta_tag ''property'' ''og:title'' ''B'']
     ''https://example.com/page'' = Some [(''og:title'', Str ''A'')] \<and>
   last_write_wins [meta_tag ''name'' ''og:title'' ''A'',
                    meta_tag ''property'' ''og:title'' ''B''] ''og:title'' =
     Some (Str ''B'')"
  by (simp add: post_eval last_write_wins_def carries_key_def content_list_def last_opt_def
      startsWith_def)

end
